theory Spec2Isabelle
  imports Main "HOL-Library.Word"
begin

section \<open>JavaScript strings\<close>

text \<open>
  A JavaScript string is a sequence of UTF-16 code units.  Literals of the source are
  written \<open>js ''...''\<close>: every character of such a literal is ASCII and stands for the
  code unit with the same number.
\<close>

type_synonym jschar = "16 word"
type_synonym jsstring = "jschar list"

definition js :: "string \<Rightarrow> jsstring" where
  "js s = map of_char s"

text \<open>\<open>String.prototype.startsWith\<close>.\<close>

fun startsWith :: "jsstring \<Rightarrow> jsstring \<Rightarrow> bool" where
  "startsWith s [] = True"
| "startsWith [] (p # ps) = False"
| "startsWith (c # cs) (p # ps) = (c = p \<and> startsWith cs ps)"

text \<open>
  The code units that \<open>String.prototype.trim\<close> strips and that the pattern \<open>\s\<close>
  matches: the WhiteSpace and LineTerminator productions of ECMAScript.
\<close>

definition isJsWhite :: "jschar \<Rightarrow> bool" where
  "isJsWhite c =
     (c = 0x09 \<or> c = 0x0A \<or> c = 0x0B \<or> c = 0x0C \<or> c = 0x0D \<or> c = 0x20 \<or> c = 0xA0
      \<or> c = 0x1680 \<or> (0x2000 \<le> c \<and> c \<le> 0x200A) \<or> c = 0x2028 \<or> c = 0x2029
      \<or> c = 0x202F \<or> c = 0x205F \<or> c = 0x3000 \<or> c = 0xFEFF)"

definition trim :: "jsstring \<Rightarrow> jsstring" where
  "trim s = rev (dropWhile isJsWhite (rev (dropWhile isJsWhite s)))"

text \<open>The pattern \<open>\d\<close>: the ten ASCII digits.\<close>

definition isDigit :: "jschar \<Rightarrow> bool" where
  "isDigit c = (0x30 \<le> c \<and> c \<le> 0x39)"

section \<open>Identifier validator\<close>

text \<open>
  \<open>/^\d+(-\d+)?$/.test(s)\<close>: a non-empty run of digits, optionally followed by a hyphen
  and a second non-empty run of digits, and nothing else.
\<close>

definition testElementId :: "jsstring \<Rightarrow> bool" where
  "testElementId s =
     (let ds = takeWhile isDigit s; rest = dropWhile isDigit s
      in ds \<noteq> [] \<and>
         (case rest of
            [] \<Rightarrow> True
          | c # more \<Rightarrow> c = 0x2D \<and> more \<noteq> [] \<and> list_all isDigit more))"

text \<open>The language of the same pattern, written as the pattern reads.\<close>

definition elementIdLanguage :: "jsstring set" where
  "elementIdLanguage =
     {a | a. a \<noteq> [] \<and> list_all isDigit a} \<union>
     {a @ [0x2D] @ b | a b. a \<noteq> [] \<and> list_all isDigit a \<and> b \<noteq> [] \<and> list_all isDigit b}"

text \<open>
  \<open>isValidPostUrl(url: string | undefined)\<close>.  \<open>None\<close> is \<open>undefined\<close>; the first test
  of the source also rejects the empty string.
\<close>

definition isValidPostUrl :: "jsstring option \<Rightarrow> bool" where
  "isValidPostUrl url =
     (case url of
        None \<Rightarrow> False
      | Some u \<Rightarrow>
          if u = [] then False
          else let trimmed = trim u in
            if trimmed = [] then False
            else if startsWith trimmed (js ''http://'') \<or> startsWith trimmed (js ''https://'')
              then True
            else if startsWith trimmed (js ''/'') then True
            else False)"

text \<open>\<open>isValidPaginationUrl(url: string | undefined)\<close>.\<close>

definition isValidPaginationUrl :: "jsstring option \<Rightarrow> bool" where
  "isValidPaginationUrl url =
     (case url of
        None \<Rightarrow> False
      | Some u \<Rightarrow>
          if u = [] then False
          else let trimmed = trim u in
            if trimmed = [] then False
            else if testElementId trimmed then False
            else if startsWith trimmed (js ''http://'') \<or> startsWith trimmed (js ''https://'')
                    \<or> startsWith trimmed (js ''/'')
              then True
            else False)"

section \<open>Date normalizer\<close>

text \<open>
  Matching under the \<open>i\<close> flag of a pattern without the \<open>u\<close> flag: two code units match
  when their canonical (upper-case) forms agree, and a code unit outside ASCII never
  canonicalises to an ASCII one.  Every pattern of the source that carries the flag is
  made of ASCII letters and spaces, for which this is ASCII case folding.
\<close>

definition asciiUpper :: "jschar \<Rightarrow> jschar" where
  "asciiUpper c = (if 0x61 \<le> c \<and> c \<le> 0x7A then c - 0x20 else c)"

definition asciiLower :: "jschar \<Rightarrow> jschar" where
  "asciiLower c = (if 0x41 \<le> c \<and> c \<le> 0x5A then c + 0x20 else c)"

text \<open>
  \<open>String.prototype.toLowerCase\<close> on the strings the source applies it to: text matched by
  an ASCII pattern, and the path of a parsed URL, which the platform serialises in ASCII.
\<close>

definition toLowerCase :: "jsstring \<Rightarrow> jsstring" where
  "toLowerCase s = map asciiLower s"

fun startsWithCI :: "jsstring \<Rightarrow> jsstring \<Rightarrow> bool" where
  "startsWithCI s [] = True"
| "startsWithCI [] (p # ps) = False"
| "startsWithCI (c # cs) (p # ps) = (asciiUpper c = asciiUpper p \<and> startsWithCI cs ps)"

text \<open>Decimal digits: \<open>Number.parseInt(s, 10)\<close> on a string of digits, and \<open>String(n)\<close>.\<close>

definition digitValue :: "jschar \<Rightarrow> nat" where
  "digitValue c = unat c - 48"

definition parseDigits :: "jsstring \<Rightarrow> nat" where
  "parseDigits s = foldl (\<lambda>acc c. acc * 10 + digitValue c) 0 s"

definition digitChar :: "nat \<Rightarrow> jschar" where
  "digitChar d = of_nat (48 + d)"

fun showNat :: "nat \<Rightarrow> jsstring" where
  "showNat n = (if n < 10 then [digitChar n] else showNat (n div 10) @ [digitChar (n mod 10)])"

declare showNat.simps [simp del]

definition showInt :: "int \<Rightarrow> jsstring" where
  "showInt i = (if i < 0 then 0x2D # showNat (nat (- i)) else showNat (nat i))"

text \<open>\<open>s.padStart(2, "0")\<close>.\<close>

definition padStart2 :: "jsstring \<Rightarrow> jsstring" where
  "padStart2 s = replicate (2 - length s) 0x30 @ s"

text \<open>
  \<open>/^\d{4}-\d{2}-\d{2}(T.*)?$/.test(s)\<close>.  The dot matches every code unit but the four
  line terminators.
\<close>

definition isLineTerminator :: "jschar \<Rightarrow> bool" where
  "isLineTerminator c = (c = 0x0A \<or> c = 0x0D \<or> c = 0x2028 \<or> c = 0x2029)"

fun testIsoLike :: "jsstring \<Rightarrow> bool" where
  "testIsoLike (y1 # y2 # y3 # y4 # h1 # m1 # m2 # h2 # d1 # d2 # rest) =
     (isDigit y1 \<and> isDigit y2 \<and> isDigit y3 \<and> isDigit y4 \<and> h1 = 0x2D
      \<and> isDigit m1 \<and> isDigit m2 \<and> h2 = 0x2D \<and> isDigit d1 \<and> isDigit d2
      \<and> (case rest of
            [] \<Rightarrow> True
          | t # more \<Rightarrow> t = 0x54 \<and> list_all (\<lambda>c. \<not> isLineTerminator c) more))"
| "testIsoLike s = False"

text \<open>
  \<open>raw.replace(/(\d+)(st|nd|rd|th)/gi, "$1")\<close>.  A match is a maximal run of digits followed
  by one of the four suffixes: a shorter run of digits is followed by a digit, not by a
  suffix.  So the replacement deletes the two letters after the last digit of such a run
  and resumes after them.
\<close>

definition isOrdinalSuffix :: "jschar \<Rightarrow> jschar \<Rightarrow> bool" where
  "isOrdinalSuffix a b =
     (startsWithCI [a, b] (js ''st'') \<or> startsWithCI [a, b] (js ''nd'')
      \<or> startsWithCI [a, b] (js ''rd'') \<or> startsWithCI [a, b] (js ''th''))"

fun stripOrdinals :: "jsstring \<Rightarrow> jsstring" where
  "stripOrdinals (c # a # b # rest) =
     (if isDigit c \<and> isOrdinalSuffix a b then c # stripOrdinals rest
      else c # stripOrdinals (a # b # rest))"
| "stripOrdinals s = s"

definition monthNames :: "jsstring list" where
  "monthNames =
     [js ''january'', js ''february'', js ''march'', js ''april'', js ''may'', js ''june'',
      js ''july'', js ''august'', js ''september'', js ''october'', js ''november'',
      js ''december'']"

text \<open>The alternation of the pattern, in its order.\<close>

definition monthAlternatives :: "jsstring list" where
  "monthAlternatives =
     [js ''January'', js ''February'', js ''March'', js ''April'', js ''May'', js ''June'',
      js ''July'', js ''August'', js ''September'', js ''October'', js ''November'',
      js ''December'']"

text \<open>
  \<open>s.match(/^(January|...|December)\s+(\d{1,2}),?\s+(\d{4})/i)\<close>, giving the three groups.
  No month name is a prefix of another, so at most one alternative applies.  Each greedy
  choice is the only one that can succeed: a shorter run of white space is followed by
  white space where a digit or the year must come, a day of one digit out of two is
  followed by a digit where a comma or white space must come, and a comma left unmatched
  stands where white space must come.
\<close>

definition matchMonthDate :: "jsstring \<Rightarrow> (jsstring \<times> jsstring \<times> jsstring) option" where
  "matchMonthDate s =
     (case find (startsWithCI s) monthAlternatives of
        None \<Rightarrow> None
      | Some name \<Rightarrow>
          let g1 = take (length name) s;
              r1 = drop (length name) s;
              r2 = dropWhile isJsWhite r1
          in if takeWhile isJsWhite r1 = [] then None
             else let g2 = takeWhile isDigit (take 2 r2);
                      r3 = drop (length g2) r2;
                      r4 = (case r3 of [] \<Rightarrow> [] | c # more \<Rightarrow> if c = 0x2C then more else r3);
                      r5 = dropWhile isJsWhite r4;
                      g3 = take 4 r5
                  in if g2 = [] \<or> takeWhile isJsWhite r4 = [] then None
                     else if length g3 = 4 \<and> list_all isDigit g3 then Some (g1, g2, g3)
                     else None)"

text \<open>\<open>monthNames.indexOf(name)\<close>, with \<open>None\<close> for \<open>-1\<close>.\<close>

fun indexOf :: "'a list \<Rightarrow> 'a \<Rightarrow> nat option" where
  "indexOf [] x = None"
| "indexOf (y # ys) x = (if y = x then Some 0 else map_option Suc (indexOf ys x))"

text \<open>
  \<open>normalizeDate(input: string | null | undefined)\<close>.  The last rule of the source asks the
  platform's \<open>Date\<close> to parse the cleaned string; that parser is the parameter \<open>dateParse\<close>,
  which gives \<open>getUTCFullYear()\<close>, \<open>getUTCMonth()\<close> and \<open>getUTCDate()\<close> of the parsed date,
  or \<open>None\<close> when the date is invalid.
\<close>

definition normalizeDate ::
  "(jsstring \<Rightarrow> (int \<times> nat \<times> nat) option) \<Rightarrow> jsstring option \<Rightarrow> jsstring option" where
  "normalizeDate dateParse input =
     (case input of
        None \<Rightarrow> None
      | Some i \<Rightarrow>
          if i = [] then None
          else let raw = trim i in
            if raw = [] then None
            else if testIsoLike raw then Some raw
            else let withoutOrdinals = stripOrdinals raw;
                     matched =
                       (case matchMonthDate withoutOrdinals of
                          None \<Rightarrow> None
                        | Some (g1, g2, g3) \<Rightarrow>
                            let monthName = toLowerCase g1;
                                day = parseDigits g2;
                                year = parseDigits g3
                            in (case indexOf monthNames monthName of
                                  None \<Rightarrow> None
                                | Some monthIndex \<Rightarrow>
                                    if 1 \<le> day \<and> day \<le> 31
                                    then Some (showNat year @ js ''-''
                                               @ padStart2 (showNat (monthIndex + 1)) @ js ''-''
                                               @ padStart2 (showNat day))
                                    else None))
                 in (case matched of
                       Some r \<Rightarrow> Some r
                     | None \<Rightarrow>
                         (case dateParse withoutOrdinals of
                            Some (year, month0, day) \<Rightarrow>
                              Some (showInt year @ js ''-'' @ padStart2 (showNat (month0 + 1))
                                    @ js ''-'' @ padStart2 (showNat day))
                          | None \<Rightarrow> None)))"

section \<open>Loosely typed payloads\<close>

text \<open>
  What the extraction backend returns is typed \<open>unknown\<close>: any JSON-like value.  The code
  observes of a number only its type and whether it is zero, so integers stand for all
  numbers.  An object is the list of its own properties, each key once.
\<close>

datatype json =
    JUndefined
  | JNull
  | JBool bool
  | JNum int
  | JStr jsstring
  | JArr "json list"
  | JObj "(jsstring \<times> json) list"

text \<open>Reading a property: \<open>undefined\<close> when the value has no such property.\<close>

fun getProp :: "json \<Rightarrow> jsstring \<Rightarrow> json" where
  "getProp (JObj kvs) k = (case map_of kvs k of None \<Rightarrow> JUndefined | Some v \<Rightarrow> v)"
| "getProp v k = JUndefined"

text \<open>\<open>!v\<close>.\<close>

fun falsy :: "json \<Rightarrow> bool" where
  "falsy JUndefined = True"
| "falsy JNull = True"
| "falsy (JBool b) = (\<not> b)"
| "falsy (JNum n) = (n = 0)"
| "falsy (JStr s) = (s = [])"
| "falsy v = False"

text \<open>\<open>a ?? b\<close>.\<close>

fun nullish :: "json \<Rightarrow> json \<Rightarrow> json" where
  "nullish JUndefined b = b"
| "nullish JNull b = b"
| "nullish a b = a"

text \<open>\<open>typeof v === "string" ? v : undefined\<close>.\<close>

fun stringOf :: "json \<Rightarrow> jsstring option" where
  "stringOf (JStr s) = Some s"
| "stringOf v = None"

text \<open>\<open>xs.filter((c) => typeof c === "string")\<close>.\<close>

definition stringsOf :: "json list \<Rightarrow> jsstring list" where
  "stringsOf xs = List.map_filter stringOf xs"

section \<open>The platform\<close>

text \<open>
  Three services of the JavaScript platform are parameters of the model:
  \<^item> \<open>urlPathname v\<close> is \<open>new URL(v).pathname\<close>, for any value \<open>v\<close> (the constructor turns
    its argument into a string), and \<open>None\<close> when the constructor throws;
  \<^item> \<open>urlHref url baseUrl\<close> is \<open>new URL(url, new URL(baseUrl).origin).href\<close>, and \<open>None\<close>
    when either constructor throws;
  \<^item> \<open>dateParse s\<close> is \<open>new Date(s)\<close>, as for \<open>normalizeDate\<close>.
\<close>

record platform =
  urlPathname :: "json \<Rightarrow> jsstring option"
  urlHref :: "jsstring \<Rightarrow> jsstring \<Rightarrow> jsstring option"
  dateParse :: "jsstring \<Rightarrow> (int \<times> nat \<times> nat) option"

section \<open>Record normalizer\<close>

record blog_section =
  sec_name :: jsstring
  sec_slug :: jsstring
  baseUrl :: jsstring

record post_detail =
  pd_slug :: jsstring
  pd_title :: jsstring
  pd_url :: jsstring
  pd_date :: "jsstring option"
  pd_doctorSection :: jsstring
  pd_categories :: "jsstring list option"
  pd_tags :: "jsstring list option"
  pd_markdown :: jsstring

text \<open>\<open>s.split("/")\<close>.\<close>

fun splitOn :: "jschar \<Rightarrow> jsstring \<Rightarrow> jsstring list" where
  "splitOn sep [] = [[]]"
| "splitOn sep (c # cs) =
     (if c = sep then [] # splitOn sep cs
      else (case splitOn sep cs of [] \<Rightarrow> [[c]] | x # xs \<Rightarrow> (c # x) # xs))"

text \<open>The class \<open>[a-z0-9-_]\<close>.\<close>

definition isSlugChar :: "jschar \<Rightarrow> bool" where
  "isSlugChar c = ((0x61 \<le> c \<and> c \<le> 0x7A) \<or> isDigit c \<or> c = 0x2D \<or> c = 0x5F)"

text \<open>
  \<open>s.replace(/[^a-z0-9-_]+/g, "-")\<close>: every maximal run of code units outside the class
  becomes one hyphen.  The flag says whether the previous code unit was part of such a run.
\<close>

fun replaceNonSlug :: "bool \<Rightarrow> jsstring \<Rightarrow> jsstring" where
  "replaceNonSlug inRun [] = []"
| "replaceNonSlug inRun (c # cs) =
     (if isSlugChar c then c # replaceNonSlug False cs
      else if inRun then replaceNonSlug True cs
      else 0x2D # replaceNonSlug True cs)"

text \<open>\<open>slugFromUrl(url)\<close>.  Its callers pass values of type \<open>any\<close>, so the argument is a value.\<close>

definition slugFromUrl :: "platform \<Rightarrow> json \<Rightarrow> jsstring option" where
  "slugFromUrl P url =
     (if falsy url then None
      else (case urlPathname P url of
              None \<Rightarrow> None
            | Some pathname \<Rightarrow>
                let segments = filter (\<lambda>seg. seg \<noteq> []) (splitOn 0x2F pathname)
                in if segments = [] then None
                   else Some (replaceNonSlug False (toLowerCase (last segments)))))"

text \<open>\<open>normalizePostUrl(url, baseUrl)\<close>.\<close>

definition normalizePostUrl :: "platform \<Rightarrow> jsstring \<Rightarrow> jsstring \<Rightarrow> jsstring" where
  "normalizePostUrl P url base =
     (if startsWith url (js ''http://'') \<or> startsWith url (js ''https://'') then url
      else (case urlHref P url base of Some href \<Rightarrow> href | None \<Rightarrow> url))"

text \<open>
  \<open>PostDetailSchema.safeParse(raw)\<close>: an object whose \<open>slug\<close>, \<open>title\<close>, \<open>url\<close>,
  \<open>doctorSection\<close> and \<open>markdown\<close> are strings, whose \<open>date\<close> is a string or absent, and
  whose \<open>categories\<close> and \<open>tags\<close> are arrays of strings or absent.
\<close>

fun optionalString :: "json \<Rightarrow> jsstring option option" where
  "optionalString JUndefined = Some None"
| "optionalString (JStr s) = Some (Some s)"
| "optionalString v = None"

fun optionalStrings :: "json \<Rightarrow> jsstring list option option" where
  "optionalStrings JUndefined = Some None"
| "optionalStrings (JArr xs) =
     (if list_all (\<lambda>x. stringOf x \<noteq> None) xs then Some (Some (stringsOf xs)) else None)"
| "optionalStrings v = None"

fun isObject :: "json \<Rightarrow> bool" where
  "isObject (JObj kvs) = True"
| "isObject v = False"

definition parsePostDetail :: "json \<Rightarrow> post_detail option" where
  "parsePostDetail raw =
     (if \<not> isObject raw then None
      else (case (stringOf (getProp raw (js ''slug'')), stringOf (getProp raw (js ''title'')),
                  stringOf (getProp raw (js ''url'')), optionalString (getProp raw (js ''date'')),
                  stringOf (getProp raw (js ''doctorSection'')),
                  optionalStrings (getProp raw (js ''categories'')),
                  optionalStrings (getProp raw (js ''tags'')),
                  stringOf (getProp raw (js ''markdown''))) of
              (Some sl, Some ti, Some ur, Some da, Some ds, Some ca, Some ta, Some md) \<Rightarrow>
                Some \<lparr>pd_slug = sl, pd_title = ti, pd_url = ur, pd_date = da,
                      pd_doctorSection = ds, pd_categories = ca, pd_tags = ta,
                      pd_markdown = md\<rparr>
            | _ \<Rightarrow> None))"

text \<open>\<open>Array.isArray(v) ? v.filter((c) => typeof c === "string") : []\<close>.\<close>

fun arrayStrings :: "json \<Rightarrow> jsstring list" where
  "arrayStrings (JArr xs) = stringsOf xs"
| "arrayStrings v = []"

text \<open>The fallback record of \<open>extractPostDetail\<close>, built when validation fails.\<close>

definition fallbackPostDetail :: "platform \<Rightarrow> json \<Rightarrow> jsstring \<Rightarrow> blog_section \<Rightarrow> post_detail" where
  "fallbackPostDetail P raw postUrl sec =
     (let obj = nullish raw (JObj []) in
      \<lparr>pd_slug =
         (case stringOf (getProp obj (js ''slug'')) of
            Some s \<Rightarrow> s
          | None \<Rightarrow>
              (case slugFromUrl P (nullish (getProp obj (js ''url'')) (JStr postUrl)) of
                 Some g \<Rightarrow> g
               | None \<Rightarrow>
                   (case slugFromUrl P (JStr postUrl) of
                      Some g \<Rightarrow> g
                    | None \<Rightarrow> js ''untitled''))),
       pd_title =
         (case stringOf (getProp obj (js ''title'')) of
            Some s \<Rightarrow> s
          | None \<Rightarrow> (case slugFromUrl P (JStr postUrl) of Some g \<Rightarrow> g | None \<Rightarrow> postUrl)),
       pd_url = (case stringOf (getProp obj (js ''url'')) of Some s \<Rightarrow> s | None \<Rightarrow> postUrl),
       pd_date = stringOf (getProp obj (js ''date'')),
       pd_doctorSection =
         (case stringOf (getProp obj (js ''doctorSection'')) of
            Some s \<Rightarrow> s
          | None \<Rightarrow> sec_slug sec),
       pd_categories = Some (arrayStrings (getProp obj (js ''categories''))),
       pd_tags = Some (arrayStrings (getProp obj (js ''tags''))),
       pd_markdown =
         (case stringOf (getProp obj (js ''markdown'')) of Some s \<Rightarrow> s | None \<Rightarrow> [])\<rparr>)"

text \<open>
  The part of \<open>extractPostDetail\<close> after the backend has answered: the validated payload,
  or the fallback record.
\<close>

definition shapePostDetail :: "platform \<Rightarrow> json \<Rightarrow> jsstring \<Rightarrow> blog_section \<Rightarrow> post_detail" where
  "shapePostDetail P raw postUrl sec =
     (case parsePostDetail raw of
        Some d \<Rightarrow> d
      | None \<Rightarrow> fallbackPostDetail P raw postUrl sec)"

section \<open>Listing pages\<close>

record post_summary =
  ps_url :: jsstring
  ps_title :: jsstring
  ps_date :: "jsstring option"
  ps_categories :: "jsstring list option"
  ps_tags :: "jsstring list option"

text \<open>\<open>CategoryPageResult\<close>.  A \<open>nextPageUrl\<close> that is null or absent is \<open>None\<close>.\<close>

record category_page_result =
  posts :: "post_summary list"
  nextPageUrl :: "jsstring option"

text \<open>\<open>CategoryPostSummarySchema\<close> and \<open>CategoryPageSchema\<close>, as \<open>safeParse\<close> applies them.\<close>

definition parsePostSummary :: "json \<Rightarrow> post_summary option" where
  "parsePostSummary p =
     (if \<not> isObject p then None
      else (case (stringOf (getProp p (js ''url'')), stringOf (getProp p (js ''title'')),
                  optionalString (getProp p (js ''date'')),
                  optionalStrings (getProp p (js ''categories'')),
                  optionalStrings (getProp p (js ''tags''))) of
              (Some ur, Some ti, Some da, Some ca, Some ta) \<Rightarrow>
                Some \<lparr>ps_url = ur, ps_title = ti, ps_date = da, ps_categories = ca,
                      ps_tags = ta\<rparr>
            | _ \<Rightarrow> None))"

fun nullableString :: "json \<Rightarrow> jsstring option option" where
  "nullableString JUndefined = Some None"
| "nullableString JNull = Some None"
| "nullableString (JStr s) = Some (Some s)"
| "nullableString v = None"

definition parseCategoryPage :: "json \<Rightarrow> category_page_result option" where
  "parseCategoryPage raw =
     (if \<not> isObject raw then None
      else (case (getProp raw (js ''posts''), nullableString (getProp raw (js ''nextPageUrl''))) of
              (JArr ps, Some nxt) \<Rightarrow>
                if list_all (\<lambda>p. parsePostSummary p \<noteq> None) ps
                then Some \<lparr>posts = List.map_filter parsePostSummary ps, nextPageUrl = nxt\<rparr>
                else None
            | _ \<Rightarrow> None))"

text \<open>The fallback of \<open>extractCategoryPage\<close>: every entry with a string url and title is kept.\<close>

fun arrayItems :: "json \<Rightarrow> json list" where
  "arrayItems (JArr xs) = xs"
| "arrayItems v = []"

fun optionalArrayStrings :: "json \<Rightarrow> jsstring list option" where
  "optionalArrayStrings (JArr xs) = Some (stringsOf xs)"
| "optionalArrayStrings v = None"

definition fallbackPostSummary :: "json \<Rightarrow> post_summary option" where
  "fallbackPostSummary p =
     (case (stringOf (getProp p (js ''url'')), stringOf (getProp p (js ''title''))) of
        (Some ur, Some ti) \<Rightarrow>
          Some \<lparr>ps_url = ur, ps_title = ti, ps_date = stringOf (getProp p (js ''date'')),
                ps_categories = optionalArrayStrings (getProp p (js ''categories'')),
                ps_tags = optionalArrayStrings (getProp p (js ''tags''))\<rparr>
      | _ \<Rightarrow> None)"

definition fallbackCategoryPage :: "json \<Rightarrow> category_page_result" where
  "fallbackCategoryPage raw =
     (let obj = nullish raw (JObj [])
      in \<lparr>posts = List.map_filter fallbackPostSummary (arrayItems (getProp obj (js ''posts''))),
          nextPageUrl =
            (case stringOf (getProp obj (js ''nextPageUrl'')) of
               Some s \<Rightarrow> Some s
             | None \<Rightarrow> stringOf (getProp obj (js ''next'')))\<rparr>)"

definition shapeCategoryPage :: "json \<Rightarrow> category_page_result" where
  "shapeCategoryPage raw =
     (case parseCategoryPage raw of
        Some r \<Rightarrow> r
      | None \<Rightarrow> fallbackCategoryPage raw)"

section \<open>Pagination cursor\<close>

text \<open>
  The end of a page iteration of \<open>scrapeSection\<close>: the value given to \<open>currentUrl\<close>, with
  \<open>None\<close> for null.  \<open>pageNum\<close> is the number of the page just read.
\<close>

definition nextPageTarget ::
  "platform \<Rightarrow> blog_section \<Rightarrow> nat \<Rightarrow> category_page_result \<Rightarrow> jsstring option" where
  "nextPageTarget P sec pageNum result =
     (let hasValidNextUrl = isValidPaginationUrl (nextPageUrl result)
      in (case nextPageUrl result of
            Some hint \<Rightarrow>
              if hint \<noteq> [] \<and> hasValidNextUrl then Some (normalizePostUrl P hint (baseUrl sec))
              else if length (posts result) > 0
                then Some (baseUrl sec @ js ''page/'' @ showNat (pageNum + 1) @ js ''/'')
              else None
          | None \<Rightarrow>
              if length (posts result) > 0
                then Some (baseUrl sec @ js ''page/'' @ showNat (pageNum + 1) @ js ''/'')
              else None))"

section \<open>Errors, telemetry and the backend\<close>

text \<open>A thrown value: an instance of \<open>Error\<close> with its name and message, or anything else.\<close>

datatype js_error = JsError jsstring jsstring | NonError

text \<open>\<open>/pattern/i.test(s)\<close> for a pattern of literal ASCII characters.\<close>

fun containsCI :: "jsstring \<Rightarrow> jsstring \<Rightarrow> bool" where
  "containsCI [] pat = startsWithCI [] pat"
| "containsCI (c # cs) pat = (startsWithCI (c # cs) pat \<or> containsCI cs pat)"

fun isStagehandSessionError :: "js_error \<Rightarrow> bool" where
  "isStagehandSessionError (JsError name message) =
     (if name = js ''StagehandServerError''
      then containsCI message (js ''session has completed or timed out'')
           \<or> containsCI message (js ''Cannot connect to session'')
      else False)"
| "isStagehandSessionError NonError = False"

text \<open>The \<open>errorType\<close> under which the retry loop counts an error.\<close>

fun errorTypeOf :: "js_error \<Rightarrow> jsstring" where
  "errorTypeOf (JsError name message) =
     (if name \<noteq> [] then name
      else if isStagehandSessionError (JsError name message) then js ''StagehandSessionError''
      else js ''Error'')"
| "errorTypeOf NonError = js ''UnknownError''"

record section_run_stats =
  pagesVisited :: nat
  postsDiscovered :: nat
  postsSaved :: nat
  postsFailed :: nat

datatype section_status = Pending | SectionComplete | SessionFailed

datatype run_status = RunStart | RunComplete | RunAborted

record run_totals =
  sectionsVisited :: nat
  categoryPagesVisited :: nat
  totalPostsDiscovered :: nat
  totalPostsSaved :: nat
  totalPostsFailed :: nat

text \<open>
  \<open>RunReport\<close>, without the identifiers and the configuration, which nothing updates.  The
  three dictionaries are maps from the section slug or the error type.
\<close>

record run_report =
  status :: "run_status option"
  totals :: run_totals
  sections :: "jsstring \<rightharpoonup> section_run_stats"
  sectionStatus :: "jsstring \<rightharpoonup> section_status"
  errors :: "jsstring \<rightharpoonup> nat"

text \<open>\<open>PostRecord\<close> of the store.\<close>

record post_record =
  pr_url :: jsstring
  pr_slug :: jsstring
  pr_title :: jsstring
  pr_datePublished :: "jsstring option"
  pr_doctorSection :: jsstring
  pr_categories :: "jsstring list"
  pr_tags :: "jsstring list"
  pr_markdown :: jsstring

text \<open>
  The collaborators of the crawler act on a world \<open>'w\<close> that the model does not look into:
  the browser session, the extraction backend, the store and the file system.  Each
  operation takes the world and returns its answer with the next world; an operation that
  can throw answers with the error.
  \<^item> \<open>newPage\<close>, \<open>goto\<close>: \<open>context.newPage(url)\<close>, \<open>pageInstance.goto(url)\<close>;
  \<^item> \<open>extractCategory\<close>, \<open>extractPost\<close>: \<open>stagehand.extract\<close> with the listing and the
    detail instruction, giving the raw payload;
  \<^item> \<open>extractDebug\<close>: the schema-less diagnostic extraction of an empty listing page and
    the writing of its file, whose failures the source swallows;
  \<^item> \<open>upsertPost\<close>, \<open>writePostMarkdown\<close>: the store and the Markdown file;
  \<^item> \<open>getExistingPostUrls\<close>, \<open>stagehandInit\<close>, \<open>stagehandClose\<close>: what \<open>main\<close> calls around
    a section (creating and initialising the session and taking its first page; reading
    its metrics and closing it, failures swallowed).
\<close>

record 'w backend =
  newPage :: "'w \<Rightarrow> jsstring \<Rightarrow> js_error option \<times> 'w"
  goto :: "'w \<Rightarrow> jsstring \<Rightarrow> js_error option \<times> 'w"
  extractCategory :: "'w \<Rightarrow> blog_section \<Rightarrow> jsstring \<Rightarrow> (js_error + json) \<times> 'w"
  extractDebug :: "'w \<Rightarrow> blog_section \<Rightarrow> jsstring \<Rightarrow> 'w"
  extractPost :: "'w \<Rightarrow> blog_section \<Rightarrow> jsstring \<Rightarrow> (js_error + json) \<times> 'w"
  upsertPost :: "'w \<Rightarrow> post_record \<Rightarrow> js_error option \<times> 'w"
  writePostMarkdown :: "'w \<Rightarrow> blog_section \<Rightarrow> post_detail \<Rightarrow> js_error option \<times> 'w"
  getExistingPostUrls :: "'w \<Rightarrow> (js_error + jsstring list) \<times> 'w"
  stagehandInit :: "'w \<Rightarrow> blog_section \<Rightarrow> js_error option \<times> 'w"
  stagehandClose :: "'w \<Rightarrow> blog_section \<Rightarrow> 'w"

text \<open>
  What the crawler asks of its collaborators is recorded, in order, as events.  An
  extraction carries its outcome, as the metric line that the source logs for it does.
\<close>

datatype outcome = Ok | SessionError | OtherError

datatype event =
    NewPage jsstring
  | Goto jsstring
  | Wait nat
  | ExtractCategory jsstring outcome
  | ExtractDebug jsstring
  | ExtractPost jsstring nat outcome
  | Backoff nat
  | Upsert post_record
  | WriteMarkdown jsstring post_detail

definition outcomeOf :: "js_error \<Rightarrow> outcome" where
  "outcomeOf err = (if isStagehandSessionError err then SessionError else OtherError)"

text \<open>
  The state of a crawl: the world, the Dedup Set and the Run Report, which \<open>main\<close> shares
  among the sections, the events so far, and the local variables of \<open>scrapeSection\<close>.
\<close>

record 'w crawl =
  world :: 'w
  seenUrls :: "jsstring set"
  runReport :: run_report
  events :: "event list"
  totalNew :: nat
  sessionHealthy :: bool
  consecutiveSessionErrors :: nat
  newThisPage :: nat
  invalidUrlCount :: nat

definition emit :: "event list \<Rightarrow> 'w crawl \<Rightarrow> 'w crawl" where
  "emit evs c = c\<lparr>events := events c @ evs\<rparr>"

text \<open>Updates of the Run Report.\<close>

definition onReport :: "(run_report \<Rightarrow> run_report) \<Rightarrow> 'w crawl \<Rightarrow> 'w crawl" where
  "onReport f c = c\<lparr>runReport := f (runReport c)\<rparr>"

definition onTotals :: "(run_totals \<Rightarrow> run_totals) \<Rightarrow> run_report \<Rightarrow> run_report" where
  "onTotals f r = r\<lparr>totals := f (totals r)\<rparr>"

text \<open>
  \<open>sectionStats\<close> is the object \<open>runReport.sections[section.slug]\<close>, so an update of it is an
  update of the report.  The source reads it once, before the loop, and throws at the
  first page when it is undefined; past that point the entry exists.
\<close>

definition onSectionStats ::
  "jsstring \<Rightarrow> (section_run_stats \<Rightarrow> section_run_stats) \<Rightarrow> run_report \<Rightarrow> run_report" where
  "onSectionStats slug f r =
     (case sections r slug of
        None \<Rightarrow> r
      | Some st \<Rightarrow> r\<lparr>sections := (sections r)(slug \<mapsto> f st)\<rparr>)"

definition countError :: "jsstring \<Rightarrow> run_report \<Rightarrow> run_report" where
  "countError errorType r =
     r\<lparr>errors := (errors r)(errorType \<mapsto> (case errors r errorType of None \<Rightarrow> 0 | Some n \<Rightarrow> n) + 1)\<rparr>"

definition setSectionStatus :: "jsstring \<Rightarrow> section_status \<Rightarrow> run_report \<Rightarrow> run_report" where
  "setSectionStatus slug st r = r\<lparr>sectionStatus := (sectionStatus r)(slug \<mapsto> st)\<rparr>"

section \<open>Section crawler\<close>

definition maxAttempts :: nat where
  "maxAttempts = 3"

definition SESSION_ERROR_POST_THRESHOLD :: nat where
  "SESSION_ERROR_POST_THRESHOLD = 3"

text \<open>
  Each loop of \<open>scrapeSection\<close> is a recursive function over the body of the loop, and the
  way a body is left (the next iteration, \<open>break\<close>, an exception) is a value.
\<close>

datatype 'w attempt_flow =
    Retry "'w crawl"
  | Done "post_detail option" "'w crawl"

datatype 'w post_flow =
    ContinuePosts "'w crawl"
  | BreakPosts "'w crawl"
  | ThrowPosts js_error "'w crawl"

datatype 'w page_flow =
    ContinuePages "jsstring option" "'w crawl"
  | BreakPages "'w crawl"
  | ThrowPages js_error "'w crawl"

text \<open>
  The last statements of the \<open>catch\<close> block of the retry loop: give up on the URL, or wait
  and try again.
\<close>

definition giveUpOrRetry :: "bool \<Rightarrow> nat \<Rightarrow> 'w crawl \<Rightarrow> 'w attempt_flow" where
  "giveUpOrRetry isSessionError attempt c =
     (if \<not> isSessionError \<or> attempt = maxAttempts then Done None c
      else Retry (emit [Backoff (attempt * 1000)] c))"

text \<open>One attempt: the body of \<open>for (let attempt = 1; attempt <= maxAttempts; attempt++)\<close>.\<close>

definition attemptStep ::
  "platform \<Rightarrow> 'w backend \<Rightarrow> blog_section \<Rightarrow> jsstring \<Rightarrow> nat \<Rightarrow> 'w crawl \<Rightarrow> 'w attempt_flow" where
  "attemptStep P B sec normalizedUrl attempt c =
     (case extractPost B (world c) sec normalizedUrl of
        (Inr raw, w) \<Rightarrow>
          Done (Some (shapePostDetail P raw normalizedUrl sec))
            ((emit [ExtractPost normalizedUrl attempt Ok] (c\<lparr>world := w\<rparr>))
               \<lparr>consecutiveSessionErrors := 0\<rparr>)
      | (Inl err, w) \<Rightarrow>
          let isSessionError = isStagehandSessionError err;
              c1 = onReport (countError (errorTypeOf err))
                     (emit [ExtractPost normalizedUrl attempt (outcomeOf err)] (c\<lparr>world := w\<rparr>))
          in if isSessionError \<and> attempt = maxAttempts
             then let c2 = c1\<lparr>consecutiveSessionErrors := consecutiveSessionErrors c1 + 1\<rparr>
                  in if consecutiveSessionErrors c2 \<ge> SESSION_ERROR_POST_THRESHOLD
                     then Done None
                            ((onReport (setSectionStatus (sec_slug sec) SessionFailed) c2)
                               \<lparr>sessionHealthy := False\<rparr>)
                     else giveUpOrRetry isSessionError attempt c2
             else giveUpOrRetry isSessionError attempt c1)"

function attemptLoop ::
  "platform \<Rightarrow> 'w backend \<Rightarrow> blog_section \<Rightarrow> jsstring \<Rightarrow> nat \<Rightarrow> 'w crawl
   \<Rightarrow> post_detail option \<times> 'w crawl" where
  "attemptLoop P B sec normalizedUrl attempt c =
     (if attempt \<le> maxAttempts
      then (case attemptStep P B sec normalizedUrl attempt c of
              Retry c' \<Rightarrow> attemptLoop P B sec normalizedUrl (attempt + 1) c'
            | Done detail c' \<Rightarrow> (detail, c'))
      else (None, c))"
  by pat_completeness auto
termination
  by (relation "measure (\<lambda>(P, B, sec, normalizedUrl, attempt, c). maxAttempts + 1 - attempt)") auto

declare attemptLoop.simps [simp del]

definition countFailed :: "jsstring \<Rightarrow> run_report \<Rightarrow> run_report" where
  "countFailed slug r =
     onTotals (\<lambda>t. t\<lparr>totalPostsFailed := totalPostsFailed t + 1\<rparr>)
       (onSectionStats slug (\<lambda>st. st\<lparr>postsFailed := postsFailed st + 1\<rparr>) r)"

definition countSaved :: "jsstring \<Rightarrow> run_report \<Rightarrow> run_report" where
  "countSaved slug r =
     onTotals (\<lambda>t. t\<lparr>totalPostsSaved := totalPostsSaved t + 1\<rparr>)
       (onSectionStats slug (\<lambda>st. st\<lparr>postsSaved := postsSaved st + 1\<rparr>) r)"

definition countDiscovered :: "jsstring \<Rightarrow> nat \<Rightarrow> run_report \<Rightarrow> run_report" where
  "countDiscovered slug n r =
     onTotals (\<lambda>t. t\<lparr>totalPostsDiscovered := totalPostsDiscovered t + n\<rparr>)
       (onSectionStats slug (\<lambda>st. st\<lparr>postsDiscovered := postsDiscovered st + n\<rparr>) r)"

text \<open>From \<open>normalizeDate\<close> to \<open>console.log("Saved")\<close>: a detail is forwarded to the sink.\<close>

definition savePost ::
  "platform \<Rightarrow> 'w backend \<Rightarrow> blog_section \<Rightarrow> post_detail \<Rightarrow> 'w crawl \<Rightarrow> 'w post_flow" where
  "savePost P B sec detail c =
     (let normalizedDate = normalizeDate (dateParse P) (pd_date detail);
          effectiveDate = (case normalizedDate of Some n \<Rightarrow> Some n | None \<Rightarrow> pd_date detail);
          postRecord =
            \<lparr>pr_url = pd_url detail, pr_slug = pd_slug detail, pr_title = pd_title detail,
             pr_datePublished = effectiveDate, pr_doctorSection = pd_doctorSection detail,
             pr_categories = (case pd_categories detail of Some cs \<Rightarrow> cs | None \<Rightarrow> []),
             pr_tags = (case pd_tags detail of Some ts \<Rightarrow> ts | None \<Rightarrow> []),
             pr_markdown = pd_markdown detail\<rparr>;
          rendered = detail\<lparr>pd_date := effectiveDate\<rparr>
      in (case upsertPost B (world c) postRecord of
            (Some err, w) \<Rightarrow> ThrowPosts err (emit [Upsert postRecord] (c\<lparr>world := w\<rparr>))
          | (None, w) \<Rightarrow>
              let c1 = emit [Upsert postRecord] (c\<lparr>world := w\<rparr>)
              in (case writePostMarkdown B (world c1) sec rendered of
                    (Some err, w') \<Rightarrow>
                      ThrowPosts err (emit [WriteMarkdown (sec_slug sec) rendered] (c1\<lparr>world := w'\<rparr>))
                  | (None, w') \<Rightarrow>
                      ContinuePosts
                        (onReport (countSaved (sec_slug sec))
                           ((emit [WriteMarkdown (sec_slug sec) rendered] (c1\<lparr>world := w'\<rparr>))
                              \<lparr>newThisPage := newThisPage c1 + 1\<rparr>)))))"

text \<open>One summary: the body of \<open>for (const summary of result.posts)\<close>.\<close>

definition processPost ::
  "platform \<Rightarrow> 'w backend \<Rightarrow> blog_section \<Rightarrow> post_summary \<Rightarrow> 'w crawl \<Rightarrow> 'w post_flow" where
  "processPost P B sec summary c =
     (if \<not> sessionHealthy c then BreakPosts c
      else if \<not> isValidPostUrl (Some (ps_url summary))
        then ContinuePosts (c\<lparr>invalidUrlCount := invalidUrlCount c + 1\<rparr>)
      else let normalizedUrl = normalizePostUrl P (ps_url summary) (baseUrl sec)
           in if normalizedUrl \<in> seenUrls c then ContinuePosts c
              else (case attemptLoop P B sec normalizedUrl 1
                           (c\<lparr>seenUrls := insert normalizedUrl (seenUrls c)\<rparr>) of
                      (detail, c1) \<Rightarrow>
                        if \<not> sessionHealthy c1 then BreakPosts c1
                        else (case detail of
                                None \<Rightarrow> ContinuePosts (onReport (countFailed (sec_slug sec)) c1)
                              | Some d \<Rightarrow> savePost P B sec d c1)))"

text \<open>
  The loop over the summaries of a page.  The first component of the result is an
  exception thrown by the sink, which the \<open>catch\<close> block of the page receives.
\<close>

fun postsLoop ::
  "platform \<Rightarrow> 'w backend \<Rightarrow> blog_section \<Rightarrow> post_summary list \<Rightarrow> 'w crawl
   \<Rightarrow> js_error option \<times> 'w crawl" where
  "postsLoop P B sec [] c = (None, c)"
| "postsLoop P B sec (summary # rest) c =
     (case processPost P B sec summary c of
        ContinuePosts c' \<Rightarrow> postsLoop P B sec rest c'
      | BreakPosts c' \<Rightarrow> (None, c')
      | ThrowPosts err c' \<Rightarrow> (Some err, c'))"

text \<open>The \<open>catch\<close> block of a page iteration; the \<open>break\<close> that ends it is in \<open>pageIteration\<close>.\<close>

definition catchPageError :: "blog_section \<Rightarrow> js_error \<Rightarrow> 'w crawl \<Rightarrow> 'w crawl" where
  "catchPageError sec err c =
     (if isStagehandSessionError err
      then (onReport (setSectionStatus (sec_slug sec) SessionFailed) c)\<lparr>sessionHealthy := False\<rparr>
      else c)"

text \<open>
  \<open>extractCategoryPage\<close>: the backend is asked for the listing, the metric is logged, and the
  payload is validated or repaired.
\<close>

definition extractCategoryPage ::
  "'w backend \<Rightarrow> blog_section \<Rightarrow> jsstring \<Rightarrow> 'w crawl
   \<Rightarrow> (js_error + category_page_result) \<times> 'w crawl" where
  "extractCategoryPage B sec pageUrl c =
     (case extractCategory B (world c) sec pageUrl of
        (Inl err, w) \<Rightarrow>
          (Inl err, emit [ExtractCategory pageUrl (outcomeOf err)] (c\<lparr>world := w\<rparr>))
      | (Inr raw, w) \<Rightarrow>
          (Inr (shapeCategoryPage raw), emit [ExtractCategory pageUrl Ok] (c\<lparr>world := w\<rparr>)))"

text \<open>
  The start of a page iteration, before the \<open>try\<close>: navigation (from the second page on)
  and the two counters of visited pages.  What is thrown here leaves \<open>scrapeSection\<close>: a
  failed navigation, or the \<open>TypeError\<close> of an undefined \<open>sectionStats\<close>.
\<close>

definition enterPage ::
  "'w backend \<Rightarrow> blog_section \<Rightarrow> nat \<Rightarrow> jsstring \<Rightarrow> 'w crawl \<Rightarrow> js_error option \<times> 'w crawl" where
  "enterPage B sec pageNum currentUrl c =
     (case (if pageNum > 1
            then (case goto B (world c) currentUrl of
                    (e, w) \<Rightarrow> (e, emit [Goto currentUrl] (c\<lparr>world := w\<rparr>)))
            else (None, c)) of
        (Some err, c0) \<Rightarrow> (Some err, c0)
      | (None, c0) \<Rightarrow>
          let c1 = (if pageNum > 1 then emit [Wait 3000] c0 else c0);
              c2 = onReport (onTotals (\<lambda>t. t\<lparr>categoryPagesVisited := categoryPagesVisited t + 1\<rparr>)) c1
          in (case sections (runReport c2) (sec_slug sec) of
                None \<Rightarrow>
                  (Some (JsError (js ''TypeError'')
                           (js ''Cannot read properties of undefined (reading 'pagesVisited')'')),
                   c2)
              | Some stats \<Rightarrow>
                  (None, onReport (onSectionStats (sec_slug sec)
                                     (\<lambda>st. st\<lparr>pagesVisited := pagesVisited st + 1\<rparr>)) c2)))"

text \<open>
  The diagnostic extraction of a page without summaries, and the counters of discovered
  posts.
\<close>

definition notePosts ::
  "'w backend \<Rightarrow> blog_section \<Rightarrow> jsstring \<Rightarrow> category_page_result \<Rightarrow> 'w crawl \<Rightarrow> 'w crawl" where
  "notePosts B sec currentUrl result c =
     onReport (countDiscovered (sec_slug sec) (length (posts result)))
       (if length (posts result) = 0
        then emit [ExtractDebug currentUrl] (c\<lparr>world := extractDebug B (world c) sec currentUrl\<rparr>)
        else c)"

text \<open>One listing page: the body of the \<open>while\<close> loop.\<close>

definition pageIteration ::
  "platform \<Rightarrow> 'w backend \<Rightarrow> blog_section \<Rightarrow> nat \<Rightarrow> jsstring \<Rightarrow> 'w crawl \<Rightarrow> 'w page_flow" where
  "pageIteration P B sec pageNum currentUrl c =
     (case enterPage B sec pageNum currentUrl c of
        (Some err, c1) \<Rightarrow> ThrowPages err c1
      | (None, c1) \<Rightarrow>
          (case extractCategoryPage B sec currentUrl c1 of
             (Inl err, c2) \<Rightarrow> BreakPages (catchPageError sec err c2)
           | (Inr result, c2) \<Rightarrow>
               (case postsLoop P B sec (posts result)
                       ((notePosts B sec currentUrl result c2)
                          \<lparr>newThisPage := 0, invalidUrlCount := 0\<rparr>) of
                  (Some err, c3) \<Rightarrow> BreakPages (catchPageError sec err c3)
                | (None, c3) \<Rightarrow>
                    ContinuePages (nextPageTarget P sec pageNum result)
                      (c3\<lparr>totalNew := totalNew c3 + newThisPage c3\<rparr>))))"

text \<open>
  \<open>while (currentUrl && pageNum <= maxPagesPerSection && sessionHealthy)\<close>.  The first
  component of the result is an exception that leaves \<open>scrapeSection\<close>.
\<close>

function pageLoop ::
  "platform \<Rightarrow> 'w backend \<Rightarrow> blog_section \<Rightarrow> nat \<Rightarrow> nat \<Rightarrow> jsstring option \<Rightarrow> 'w crawl
   \<Rightarrow> js_error option \<times> 'w crawl" where
  "pageLoop P B sec maxPagesPerSection pageNum currentUrl c =
     (case currentUrl of
        None \<Rightarrow> (None, c)
      | Some cur \<Rightarrow>
          if cur \<noteq> [] \<and> pageNum \<le> maxPagesPerSection \<and> sessionHealthy c
          then (case pageIteration P B sec pageNum cur c of
                  ContinuePages nxt c' \<Rightarrow> pageLoop P B sec maxPagesPerSection (pageNum + 1) nxt c'
                | BreakPages c' \<Rightarrow> (None, c')
                | ThrowPages err c' \<Rightarrow> (Some err, c'))
          else (None, c))"
  by pat_completeness auto
termination
  by (relation "measure (\<lambda>(P, B, sec, maxPagesPerSection, pageNum, currentUrl, c).
                  maxPagesPerSection + 1 - pageNum)") auto

declare pageLoop.simps [simp del]

text \<open>
  \<open>scrapeSection\<close>: the number of new posts, or the exception it throws.  Its own variables
  are initialised here, whatever they were in the state it receives.
\<close>

definition scrapeSection ::
  "platform \<Rightarrow> 'w backend \<Rightarrow> blog_section \<Rightarrow> nat \<Rightarrow> 'w crawl \<Rightarrow> (js_error + nat) \<times> 'w crawl" where
  "scrapeSection P B sec maxPagesPerSection c =
     (let c0 = c\<lparr>totalNew := 0, sessionHealthy := True, consecutiveSessionErrors := 0\<rparr>
      in (case newPage B (world c0) (baseUrl sec) of
            (Some err, w) \<Rightarrow> (Inl err, emit [NewPage (baseUrl sec)] (c0\<lparr>world := w\<rparr>))
          | (None, w) \<Rightarrow>
              (case pageLoop P B sec maxPagesPerSection 1 (Some (baseUrl sec))
                      (emit [NewPage (baseUrl sec), Wait 3000] (c0\<lparr>world := w\<rparr>)) of
                 (Some err, c') \<Rightarrow> (Inl err, c')
               | (None, c') \<Rightarrow> (Inr (totalNew c'), c'))))"

section \<open>The run\<close>

definition SECTIONS :: "blog_section list" where
  "SECTIONS =
     [\<lparr>sec_name = js ''Dr. Diet'', sec_slug = js ''dr-diet'',
       baseUrl = js ''https://www.paulcheksblog.com/category/diet/''\<rparr>,
      \<lparr>sec_name = js ''Dr. Quiet'', sec_slug = js ''dr-quiet'',
       baseUrl = js ''https://www.paulcheksblog.com/category/quiet/''\<rparr>,
      \<lparr>sec_name = js ''Dr. Movement'', sec_slug = js ''dr-movement'',
       baseUrl = js ''https://www.paulcheksblog.com/category/movement/''\<rparr>,
      \<lparr>sec_name = js ''Dr. Happiness'', sec_slug = js ''dr-happiness'',
       baseUrl = js ''https://www.paulcheksblog.com/category/happiness/''\<rparr>]"

definition ifPending :: "jsstring \<Rightarrow> section_status \<Rightarrow> run_report \<Rightarrow> run_report" where
  "ifPending slug st r =
     (if sectionStatus r slug = Some Pending then setSectionStatus slug st r else r)"

text \<open>
  The body of \<open>for (const section of SECTIONS)\<close> in \<open>main\<close>: a session is created, the
  section is crawled, its status is settled, and the session is closed.  The result is
  \<open>newInSection\<close>.  Writing the report to the log and the snapshot files is not modelled.
\<close>

definition runSection ::
  "platform \<Rightarrow> 'w backend \<Rightarrow> nat \<Rightarrow> blog_section \<Rightarrow> 'w crawl \<Rightarrow> nat \<times> 'w crawl" where
  "runSection P B maxPagesPerSection sec c =
     (let c1 = onReport (onTotals (\<lambda>t. t\<lparr>sectionsVisited := sectionsVisited t + 1\<rparr>)) c;
          (newInSection, c3) =
            (case stagehandInit B (world c1) sec of
               (Some err, w) \<Rightarrow>
                 (0, onReport (ifPending (sec_slug sec) SessionFailed) (c1\<lparr>world := w\<rparr>))
             | (None, w) \<Rightarrow>
                 (case scrapeSection P B sec maxPagesPerSection (c1\<lparr>world := w\<rparr>) of
                    (Inr n, c2) \<Rightarrow> (n, onReport (ifPending (sec_slug sec) SectionComplete) c2)
                  | (Inl err, c2) \<Rightarrow> (0, onReport (ifPending (sec_slug sec) SessionFailed) c2)))
      in (newInSection, c3\<lparr>world := stagehandClose B (world c3) sec\<rparr>))"

fun runSections ::
  "platform \<Rightarrow> 'w backend \<Rightarrow> nat \<Rightarrow> blog_section list \<Rightarrow> nat \<Rightarrow> 'w crawl \<Rightarrow> nat \<times> 'w crawl" where
  "runSections P B maxPagesPerSection [] runTotal c = (runTotal, c)"
| "runSections P B maxPagesPerSection (sec # rest) runTotal c =
     (case runSection P B maxPagesPerSection sec c of
        (newInSection, c') \<Rightarrow> runSections P B maxPagesPerSection rest (runTotal + newInSection) c')"

definition emptyStats :: section_run_stats where
  "emptyStats = \<lparr>pagesVisited = 0, postsDiscovered = 0, postsSaved = 0, postsFailed = 0\<rparr>"

definition initialReport :: "blog_section list \<Rightarrow> run_report" where
  "initialReport secs =
     foldl (\<lambda>r sec. r\<lparr>sections := (sections r)(sec_slug sec \<mapsto> emptyStats),
                      sectionStatus := (sectionStatus r)(sec_slug sec \<mapsto> Pending)\<rparr>)
       \<lparr>status = Some RunStart,
        totals = \<lparr>sectionsVisited = 0, categoryPagesVisited = 0, totalPostsDiscovered = 0,
                  totalPostsSaved = 0, totalPostsFailed = 0\<rparr>,
        sections = Map.empty, sectionStatus = Map.empty, errors = Map.empty\<rparr>
       secs"

text \<open>
  \<open>main\<close>, from the creation of the report: the Dedup Set is made of the URLs of the
  store, and the sections are crawled in order on that one set.  An exception of the store
  leaves \<open>main\<close> before any section.
\<close>

definition main ::
  "platform \<Rightarrow> 'w backend \<Rightarrow> nat \<Rightarrow> 'w \<Rightarrow> js_error + (nat \<times> 'w crawl)" where
  "main P B maxPagesPerSection w0 =
     (case getExistingPostUrls B w0 of
        (Inl err, w) \<Rightarrow> Inl err
      | (Inr existingUrls, w) \<Rightarrow>
          (case runSections P B maxPagesPerSection SECTIONS 0
                  \<lparr>world = w, seenUrls = set existingUrls, runReport = initialReport SECTIONS,
                   events = [], totalNew = 0, sessionHealthy = True,
                   consecutiveSessionErrors = 0, newThisPage = 0, invalidUrlCount = 0\<rparr> of
             (runTotal, c) \<Rightarrow> Inr (runTotal, onReport (\<lambda>r. r\<lparr>status := Some RunComplete\<rparr>) c)))"

section \<open>A platform for the examples\<close>

text \<open>
  The examples below run on this stand-in for the platform.  It answers only where the
  answer of the platform is plain: an absolute URL of the blog whose path is made of
  letters, digits, hyphens, underscores and slashes has that path as its \<open>pathname\<close>
  (\<open>/\<close> when the path is empty), and a path of that kind resolves against the blog's
  origin by concatenation.  Elsewhere it answers \<open>None\<close>, and the examples stay away from
  there, except for \<open>new Date("not a date")\<close>, which is an invalid date.
\<close>

definition isPlainPathChar :: "jschar \<Rightarrow> bool" where
  "isPlainPathChar c =
     ((0x61 \<le> c \<and> c \<le> 0x7A) \<or> (0x41 \<le> c \<and> c \<le> 0x5A) \<or> isDigit c
      \<or> c = 0x2D \<or> c = 0x5F \<or> c = 0x2F)"

definition blogOrigin :: jsstring where
  "blogOrigin = js ''https://www.paulcheksblog.com''"

definition blogPathname :: "json \<Rightarrow> jsstring option" where
  "blogPathname v =
     (case v of
        JStr s \<Rightarrow>
          if startsWith s blogOrigin
          then let path = drop (length blogOrigin) s
               in if path = [] then Some (js ''/'')
                  else if hd path = 0x2F \<and> list_all isPlainPathChar path then Some path
                  else None
          else None
      | _ \<Rightarrow> None)"

definition blogHref :: "jsstring \<Rightarrow> jsstring \<Rightarrow> jsstring option" where
  "blogHref url base =
     (if startsWith base (blogOrigin @ js ''/'')
         \<and> list_all isPlainPathChar (drop (length blogOrigin) base)
         \<and> startsWith url (js ''/'') \<and> \<not> startsWith url (js ''//'')
         \<and> list_all isPlainPathChar url
      then Some (blogOrigin @ url)
      else None)"

definition blogPlatform :: platform where
  "blogPlatform = \<lparr>urlPathname = blogPathname, urlHref = blogHref, dateParse = (\<lambda>s. None)\<rparr>"

section \<open>Inputs of the examples\<close>

definition drDiet :: blog_section where
  "drDiet = \<lparr>sec_name = js ''Dr. Diet'', sec_slug = js ''dr-diet'',
             baseUrl = js ''https://www.paulcheksblog.com/category/diet/''\<rparr>"




section \<open>The session health monitor in the words of the specification\<close>

text \<open>
  The outcome of a detail URL, read from the events of its attempts: a success, a failure
  that is not a session error, or a session error on the final attempt.  A session error
  on an earlier attempt is followed by another attempt and is no outcome of the URL.
\<close>

datatype url_outcome = Success | SessionFailure | OtherFailure

fun urlOutcome :: "event \<Rightarrow> url_outcome option" where
  "urlOutcome (ExtractPost u a Ok) = Some Success"
| "urlOutcome (ExtractPost u a OtherError) = Some OtherFailure"
| "urlOutcome (ExtractPost u a SessionError) =
     (if a = maxAttempts then Some SessionFailure else None)"
| "urlOutcome e = None"

definition urlOutcomes :: "event list \<Rightarrow> url_outcome list" where
  "urlOutcomes evs = List.map_filter urlOutcome evs"

text \<open>
  The monitor of the specification: a counter of consecutive session errors, reset to zero
  by a success, and healthy as long as the counter is below the threshold.
\<close>

fun recordOutcome :: "nat \<Rightarrow> url_outcome \<Rightarrow> nat" where
  "recordOutcome k Success = 0"
| "recordOutcome k SessionFailure = k + 1"
| "recordOutcome k OtherFailure = k"

definition isHealthy :: "nat \<Rightarrow> bool" where
  "isHealthy k = (k < SESSION_ERROR_POST_THRESHOLD)"

text \<open>
  The events of the attempts \<open>a\<close>, ..., \<open>k - 1\<close> on a URL when each of them fails with a
  session error and is retried: the attempt, then its wait.
\<close>

definition retried :: "jsstring \<Rightarrow> nat \<Rightarrow> nat \<Rightarrow> event list" where
  "retried u a k =
     concat (map (\<lambda>i. [ExtractPost u i SessionError, Backoff (i * 1000)]) [a..<k])"

text \<open>The class of the outcome of an attempt that is not retried.\<close>

fun outcomeClass :: "outcome \<Rightarrow> url_outcome" where
  "outcomeClass Ok = Success"
| "outcomeClass SessionError = SessionFailure"
| "outcomeClass OtherError = OtherFailure"

section \<open>A backend for the examples\<close>

text \<open>
  A backend that answers detail extractions from a script, one answer per call, and
  listing extractions from a table of pages.  Navigation and the sink always succeed, and
  the store holds the given URLs.  Its world is the rest of the script.
\<close>

definition scripted ::
  "jsstring list \<Rightarrow> (jsstring \<Rightarrow> js_error + json) \<Rightarrow> (js_error + json) list backend" where
  "scripted store listing =
     \<lparr>newPage = (\<lambda>w u. (None, w)),
      goto = (\<lambda>w u. (None, w)),
      extractCategory = (\<lambda>w sec u. (listing u, w)),
      extractDebug = (\<lambda>w sec u. w),
      extractPost = (\<lambda>w sec u. case w of [] \<Rightarrow> (Inl NonError, []) | r # rest \<Rightarrow> (r, rest)),
      upsertPost = (\<lambda>w r. (None, w)),
      writePostMarkdown = (\<lambda>w sec d. (None, w)),
      getExistingPostUrls = (\<lambda>w. (Inr store, w)),
      stagehandInit = (\<lambda>w sec. (None, w)),
      stagehandClose = (\<lambda>w sec. w)\<rparr>"

definition sessionLost :: js_error where
  "sessionLost = JsError (js ''StagehandServerError'') (js ''Cannot connect to session'')"

definition badResponse :: js_error where
  "badResponse = JsError (js ''SyntaxError'') (js ''Unexpected token'')"

definition postA :: jsstring where
  "postA = js ''https://www.paulcheksblog.com/post-a/''"

definition postB :: jsstring where
  "postB = js ''https://www.paulcheksblog.com/post-b/''"

definition postC :: jsstring where
  "postC = js ''https://www.paulcheksblog.com/post-c/''"

definition summaryOf :: "jsstring \<Rightarrow> post_summary" where
  "summaryOf u =
     \<lparr>ps_url = u, ps_title = js ''Post'', ps_date = None, ps_categories = None, ps_tags = None\<rparr>"

text \<open>The payload of a listing page with the given post URLs and next-page hint.\<close>

definition listingOf :: "jsstring list \<Rightarrow> jsstring option \<Rightarrow> json" where
  "listingOf urls hint =
     JObj [(js ''posts'',
            JArr (map (\<lambda>u. JObj [(js ''url'', JStr u), (js ''title'', JStr (js ''Post''))]) urls)),
           (js ''nextPageUrl'', (case hint of None \<Rightarrow> JNull | Some h \<Rightarrow> JStr h))]"

text \<open>The payload of a detail page: the url and a title.\<close>

definition detailOf :: "jsstring \<Rightarrow> json" where
  "detailOf u = JObj [(js ''url'', JStr u), (js ''title'', JStr (js ''Post''))]"

text \<open>
  A section of two pages: the first lists \<open>postA\<close> and \<open>postB\<close> and points to the second,
  which is empty.  Every other page is empty too.
\<close>

definition twoPages :: "jsstring \<Rightarrow> js_error + json" where
  "twoPages u =
     (if u = baseUrl drDiet
      then Inr (listingOf [postA, postB] (Some (js ''/category/diet/page/2/'')))
      else Inr (listingOf [] None))"

text \<open>A page that lists three posts and has no next-page hint.\<close>

definition threePosts :: "jsstring \<Rightarrow> js_error + json" where
  "threePosts u = Inr (listingOf [postA, postB, postC] None)"

text \<open>A state at the start of a run: nothing seen, the report of \<open>main\<close>, no event.\<close>

definition startOfRun :: "'w \<Rightarrow> 'w crawl" where
  "startOfRun w =
     \<lparr>world = w, seenUrls = {}, runReport = initialReport SECTIONS, events = [],
      totalNew = 0, sessionHealthy = True, consecutiveSessionErrors = 0, newThisPage = 0,
      invalidUrlCount = 0\<rparr>"

text \<open>
  The crawl of the three posts on a backend whose session is lost: nine detail
  extractions, all failing with a session error.
\<close>

definition lostSessionCrawl :: "(js_error + nat) \<times> (js_error + json) list crawl" where
  "lostSessionCrawl =
     scrapeSection blogPlatform (scripted [] threePosts) drDiet 2
       (startOfRun (replicate 9 (Inl sessionLost)))"

text \<open>
  The crawl of the two pages when \<open>postA\<close> is in the Dedup Set and the backend answers the
  one detail extraction.
\<close>

definition twoPageCrawl :: "(js_error + nat) \<times> (js_error + json) list crawl" where
  "twoPageCrawl =
     scrapeSection blogPlatform (scripted [] twoPages) drDiet 2
       ((startOfRun [Inr (detailOf postB)])\<lparr>seenUrls := {postA}\<rparr>)"

text \<open>
  The crawl of the three posts when the session is lost for \<open>postA\<close>, back for \<open>postB\<close> and
  lost again for \<open>postC\<close>.
\<close>

definition recoveredCrawl :: "(js_error + nat) \<times> (js_error + json) list crawl" where
  "recoveredCrawl =
     scrapeSection blogPlatform (scripted [] threePosts) drDiet 1
       (startOfRun [Inl sessionLost, Inl sessionLost, Inl sessionLost, Inr (detailOf postB),
                    Inl sessionLost, Inl sessionLost, Inl sessionLost])"

text \<open>A backend session that is lost from the start: every listing extraction fails.\<close>

definition lostListing :: "jsstring \<Rightarrow> js_error + json" where
  "lostListing u = Inl sessionLost"

text \<open>A report in the middle of a run: counters above zero, an error counted.\<close>

definition busyReport :: run_report where
  "busyReport =
     countError (js ''Error'')
       (countFailed (js ''dr-diet'')
          (countDiscovered (js ''dr-diet'') 7
             (setSectionStatus (js ''dr-quiet'') SessionFailed (initialReport SECTIONS))))"

section \<open>Relations between the states of a crawl\<close>

text \<open>The state in which a body of a loop leaves the crawl.\<close>

fun postState :: "'w post_flow \<Rightarrow> 'w crawl" where
  "postState (ContinuePosts c) = c"
| "postState (BreakPosts c) = c"
| "postState (ThrowPosts err c) = c"

fun pageState :: "'w page_flow \<Rightarrow> 'w crawl" where
  "pageState (ContinuePages nxt c) = c"
| "pageState (BreakPages c) = c"
| "pageState (ThrowPages err c) = c"

text \<open>
  From \<open>c\<close> to \<open>c'\<close> the Dedup Set has only grown, and every detail extraction asked for in
  between is for a URL that was not in the set at \<open>c\<close> and is in it at \<open>c'\<close>.
\<close>

definition dedupGrows :: "'w crawl \<Rightarrow> 'w crawl \<Rightarrow> bool" where
  "dedupGrows c c' \<longleftrightarrow>
     seenUrls c \<subseteq> seenUrls c'
     \<and> (\<exists>evs. events c' = events c @ evs
           \<and> (\<forall>u a out. ExtractPost u a out \<in> set evs \<longrightarrow> u \<notin> seenUrls c \<and> u \<in> seenUrls c'))"

text \<open>
  From \<open>c\<close> to \<open>c'\<close> the counter has followed the monitor of the specification on the
  outcomes of the URLs in between, the healthy flag has not come back, a flag that fell
  has marked the section as failed, a section marked as failed has stayed so, and a flag
  that is still up has a counter below the threshold.
\<close>

definition healthTracks :: "blog_section \<Rightarrow> 'w crawl \<Rightarrow> 'w crawl \<Rightarrow> bool" where
  "healthTracks sec c c' \<longleftrightarrow>
     (\<exists>evs. events c' = events c @ evs
        \<and> consecutiveSessionErrors c'
            = foldl recordOutcome (consecutiveSessionErrors c) (urlOutcomes evs))
     \<and> (sessionHealthy c' \<longrightarrow> sessionHealthy c)
     \<and> (sessionHealthy c \<and> \<not> sessionHealthy c'
          \<longrightarrow> sectionStatus (runReport c') (sec_slug sec) = Some SessionFailed)
     \<and> (sectionStatus (runReport c) (sec_slug sec) = Some SessionFailed
          \<longrightarrow> sectionStatus (runReport c') (sec_slug sec) = Some SessionFailed)
     \<and> (isHealthy (consecutiveSessionErrors c) \<and> sessionHealthy c'
          \<longrightarrow> isHealthy (consecutiveSessionErrors c'))"

text \<open>Two states that differ at most in the Run Report.\<close>

definition sameDecisions :: "'w crawl \<Rightarrow> 'w crawl \<Rightarrow> bool" where
  "sameDecisions c d \<longleftrightarrow>
     world c = world d \<and> seenUrls c = seenUrls d \<and> events c = events d
     \<and> totalNew c = totalNew d \<and> sessionHealthy c = sessionHealthy d
     \<and> consecutiveSessionErrors c = consecutiveSessionErrors d
     \<and> newThisPage c = newThisPage d \<and> invalidUrlCount c = invalidUrlCount d"

text \<open>
  From \<open>c\<close> to \<open>c'\<close> the URL \<open>u\<close> is in the Dedup Set at the end and no detail extraction
  has been asked for it.
\<close>

definition notExtractedAgain :: "jsstring \<Rightarrow> 'w crawl \<Rightarrow> 'w crawl \<Rightarrow> bool" where
  "notExtractedAgain u c c' \<longleftrightarrow>
     u \<in> seenUrls c'
     \<and> (\<exists>evs. events c' = events c @ evs \<and> (\<forall>a out. ExtractPost u a out \<notin> set evs))"

text \<open>
  Two states that differ at most in the Run Report, whose reports have a stats entry for
  the same slugs of \<open>S\<close>.  The counters, the statuses and the error histogram are free.
\<close>

definition sameEntries :: "jsstring set \<Rightarrow> 'w crawl \<Rightarrow> 'w crawl \<Rightarrow> bool" where
  "sameEntries S c d \<longleftrightarrow>
     sameDecisions c d
     \<and> (\<forall>s\<in>S. (sections (runReport c) s = None) = (sections (runReport d) s = None))"

text \<open>Two bodies of a loop that are left the same way, in states that are so related.\<close>

fun sameAttempt :: "jsstring set \<Rightarrow> 'w attempt_flow \<Rightarrow> 'w attempt_flow \<Rightarrow> bool" where
  "sameAttempt S (Retry c) (Retry d) = sameEntries S c d"
| "sameAttempt S (Done x c) (Done y d) = (x = y \<and> sameEntries S c d)"
| "sameAttempt S f g = False"

fun samePost :: "jsstring set \<Rightarrow> 'w post_flow \<Rightarrow> 'w post_flow \<Rightarrow> bool" where
  "samePost S (ContinuePosts c) (ContinuePosts d) = sameEntries S c d"
| "samePost S (BreakPosts c) (BreakPosts d) = sameEntries S c d"
| "samePost S (ThrowPosts e c) (ThrowPosts e' d) = (e = e' \<and> sameEntries S c d)"
| "samePost S f g = False"

fun samePage :: "jsstring set \<Rightarrow> 'w page_flow \<Rightarrow> 'w page_flow \<Rightarrow> bool" where
  "samePage S (ContinuePages nxt c) (ContinuePages nxt' d) = (nxt = nxt' \<and> sameEntries S c d)"
| "samePage S (BreakPages c) (BreakPages d) = sameEntries S c d"
| "samePage S (ThrowPages e c) (ThrowPages e' d) = (e = e' \<and> sameEntries S c d)"
| "samePage S f g = False"

section \<open>Properties of the identifier validator\<close>

lemma startsWith_append: "startsWith (p @ r) p"
  by (induction p) auto

lemma startsWith_iff: "startsWith s p \<longleftrightarrow> (\<exists>r. s = p @ r)"
proof (induction s p rule: startsWith.induct)
  case (1 s)
  then show ?case by simp
next
  case (2 p ps)
  then show ?case by simp
next
  case (3 c cs p ps)
  then show ?case by auto
qed

lemma trim_Nil: "trim [] = []"
  by (simp add: trim_def)

lemma trim_keeps_prefix:
  assumes "p \<noteq> []" and "\<not> isJsWhite (hd p)" and "\<not> isJsWhite (last p)"
  shows "\<exists>r'. trim (p @ r) = p @ r'"
proof -
  from assms obtain c cs where p: "p = c # cs" and c: "\<not> isJsWhite c"
    by (cases p) auto
  have front: "dropWhile isJsWhite (p @ r) = p @ r"
    using p c by simp
  have back0: "dropWhile isJsWhite (rev p) = rev p"
    using assms by (cases "rev p") (auto simp: hd_rev)
  have "\<exists>x. dropWhile isJsWhite (rev r @ rev p) = x @ rev p"
  proof (cases "\<forall>x\<in>set (rev r). isJsWhite x")
    case True
    then have "dropWhile isJsWhite (rev r @ rev p) = dropWhile isJsWhite (rev p)"
      by (simp add: dropWhile_append)
    with back0 show ?thesis by simp
  next
    case False
    then have "dropWhile isJsWhite (rev r @ rev p) = dropWhile isJsWhite (rev r) @ rev p"
      by (auto simp: dropWhile_append)
    then show ?thesis by blast
  qed
  then obtain x where "dropWhile isJsWhite (rev (p @ r)) = x @ rev p"
    by auto
  then have "trim (p @ r) = p @ rev x"
    by (simp add: trim_def front)
  then show ?thesis by blast
qed

lemma trim_startsWith:
  assumes "startsWith s p" and "p \<noteq> []" and "\<not> isJsWhite (hd p)" and "\<not> isJsWhite (last p)"
  shows "startsWith (trim s) p"
proof -
  from assms(1) obtain r where "s = p @ r"
    by (auto simp: startsWith_iff)
  with trim_keeps_prefix [OF assms(2-4), of r] show ?thesis
    by (auto simp: startsWith_append)
qed

lemma trim_no_white:
  assumes "\<forall>c\<in>set s. \<not> isJsWhite c"
  shows "trim s = s"
proof -
  have "dropWhile isJsWhite s = s"
    using assms by (cases s) auto
  moreover have "dropWhile isJsWhite (rev s) = rev s"
    using assms by (cases "s = []") (auto simp: dropWhile_eq_self_iff hd_rev)
  ultimately show ?thesis
    by (simp add: trim_def)
qed

lemma isDigit_not_white: "isDigit c \<Longrightarrow> \<not> isJsWhite c"
  by (auto simp: isDigit_def isJsWhite_def word_le_nat_alt)

lemma testElementId_language: "testElementId s \<longleftrightarrow> s \<in> elementIdLanguage"
proof
  assume t: "testElementId s"
  let ?a = "takeWhile isDigit s" and ?r = "dropWhile isDigit s"
  have s: "s = ?a @ ?r" by simp
  have a: "?a \<noteq> []" "list_all isDigit ?a"
    using t by (auto simp: testElementId_def Let_def list_all_iff dest: set_takeWhileD)
  show "s \<in> elementIdLanguage"
  proof (cases ?r)
    case Nil
    with s have "s = ?a" by simp
    with a show ?thesis
      unfolding elementIdLanguage_def by (metis (mono_tags, lifting) UnI1 mem_Collect_eq)
  next
    case (Cons c more)
    with t have m: "c = 0x2D" "more \<noteq> []" "list_all isDigit more"
      by (auto simp: testElementId_def Let_def)
    from s Cons m(1) have "s = ?a @ [0x2D] @ more" by simp
    with a m show ?thesis
      unfolding elementIdLanguage_def by (metis (mono_tags, lifting) UnI2 mem_Collect_eq)
  qed
next
  assume "s \<in> elementIdLanguage"
  then consider
    (one) "s \<noteq> []" "list_all isDigit s"
    | (two) a b where "s = a @ [0x2D] @ b" "a \<noteq> []" "list_all isDigit a" "b \<noteq> []" "list_all isDigit b"
    unfolding elementIdLanguage_def by blast
  then show "testElementId s"
  proof cases
    case one
    then have tw: "takeWhile isDigit s = s" "dropWhile isDigit s = []"
      by (auto simp: list_all_iff)
    show ?thesis
      unfolding testElementId_def Let_def tw using one by simp
  next
    case two
    have nd: "\<not> isDigit (0x2D :: jschar)"
      by (simp add: isDigit_def)
    from two(3) have all: "\<forall>x\<in>set a. isDigit x"
      by (simp add: list_all_iff)
    have tw: "takeWhile isDigit s = a" "dropWhile isDigit s = [0x2D] @ b"
      using two(1) nd all by simp_all
    show ?thesis
      unfolding testElementId_def Let_def tw using two by simp
  qed
qed

lemma testElementId_chars:
  assumes "testElementId s"
  shows "s \<noteq> [] \<and> isDigit (hd s) \<and> (\<forall>c\<in>set s. \<not> isJsWhite c)"
proof -
  have hy: "\<not> isJsWhite (0x2D :: jschar)"
    by (simp add: isJsWhite_def)
  from assms have "s \<in> elementIdLanguage"
    by (simp add: testElementId_language)
  then consider
    (one) "s \<noteq> []" "list_all isDigit s"
    | (two) a b where "s = a @ [0x2D] @ b" "a \<noteq> []" "list_all isDigit a" "b \<noteq> []" "list_all isDigit b"
    unfolding elementIdLanguage_def by blast
  then show ?thesis
  proof cases
    case one
    then show ?thesis
      by (cases s) (auto simp: list_all_iff isDigit_not_white)
  next
    case two
    then show ?thesis
      using hy by (cases a) (auto simp: list_all_iff isDigit_not_white)
  qed
qed

lemma digit_first_no_url_prefix:
  assumes "s \<noteq> []" and "isDigit (hd s)"
  shows "\<not> startsWith s (js ''http://'') \<and> \<not> startsWith s (js ''https://'')
         \<and> \<not> startsWith s (js ''/'')"
  using assms by (cases s) (auto simp: js_def isDigit_def)

text \<open>
  C6.  The general validator accepts a string exactly when its trimmed form is non-empty
  and starts with \<open>http://\<close>, \<open>https://\<close> or \<open>/\<close>; the pagination validator accepts the
  same strings except those whose trimmed form matches \<open>^\d+(-\d+)?$\<close>.  Every string of
  that pattern is rejected by the pagination validator, and every string that starts with
  one of the three prefixes is accepted by both.  An absent candidate is rejected by both.
\<close>

theorem validators_accept_exactly:
  "(isValidPostUrl (Some s) \<longleftrightarrow>
      trim s \<noteq> [] \<and> (startsWith (trim s) (js ''http://'') \<or> startsWith (trim s) (js ''https://'')
                       \<or> startsWith (trim s) (js ''/'')))
   \<and> (isValidPaginationUrl (Some s) \<longleftrightarrow> isValidPostUrl (Some s) \<and> trim s \<notin> elementIdLanguage)
   \<and> (s \<in> elementIdLanguage \<longrightarrow> \<not> isValidPaginationUrl (Some s))
   \<and> (startsWith s (js ''http://'') \<or> startsWith s (js ''https://'') \<or> startsWith s (js ''/'')
        \<longrightarrow> isValidPostUrl (Some s) \<and> isValidPaginationUrl (Some s))
   \<and> \<not> isValidPostUrl None \<and> \<not> isValidPaginationUrl None"
proof -
  have general: "isValidPostUrl (Some s) \<longleftrightarrow>
      trim s \<noteq> [] \<and> (startsWith (trim s) (js ''http://'') \<or> startsWith (trim s) (js ''https://'')
                       \<or> startsWith (trim s) (js ''/''))"
    by (auto simp: isValidPostUrl_def Let_def trim_Nil)
  have pagination: "isValidPaginationUrl (Some s) \<longleftrightarrow>
      isValidPostUrl (Some s) \<and> trim s \<notin> elementIdLanguage"
    unfolding general
    by (auto simp: isValidPaginationUrl_def Let_def trim_Nil testElementId_language)
  have numeric: "\<not> isValidPaginationUrl (Some s)" if "s \<in> elementIdLanguage"
  proof -
    from that have t: "testElementId s"
      by (simp add: testElementId_language)
    then have "trim s = s"
      using testElementId_chars trim_no_white by blast
    with that show ?thesis
      by (simp add: pagination)
  qed
  have prefixed: "isValidPostUrl (Some s) \<and> isValidPaginationUrl (Some s)"
    if p: "startsWith s (js ''http://'') \<or> startsWith s (js ''https://'') \<or> startsWith s (js ''/'')"
  proof -
    have t: "startsWith (trim s) (js ''http://'') \<or> startsWith (trim s) (js ''https://'')
             \<or> startsWith (trim s) (js ''/'')"
      using p by (auto simp: js_def isJsWhite_def dest!: trim_startsWith)
    then have ne: "trim s \<noteq> []"
      by (auto simp: js_def)
    have "\<not> testElementId (trim s)"
    proof
      assume "testElementId (trim s)"
      then have "trim s \<noteq> [] \<and> isDigit (hd (trim s))"
        using testElementId_chars by blast
      with t show False
        using digit_first_no_url_prefix by blast
    qed
    with t ne show ?thesis
      by (simp add: general pagination testElementId_language)
  qed
  show ?thesis
    using general pagination numeric prefixed
    by (simp add: isValidPostUrl_def isValidPaginationUrl_def)
qed

theorem validators_accept_exactly_witness:
  "js ''0-346'' \<in> elementIdLanguage \<and> \<not> isValidPaginationUrl (Some (js ''0-346''))
   \<and> startsWith (js ''/category/diet/page/2/'') (js ''/'')
   \<and> isValidPostUrl (Some (js ''/category/diet/page/2/''))
   \<and> isValidPaginationUrl (Some (js ''/category/diet/page/2/''))"
proof -
  have a: "js ''0-346'' \<in> elementIdLanguage"
    unfolding testElementId_language [symmetric]
    by (simp add: testElementId_def js_def isDigit_def)
  have b: "startsWith (js ''/category/diet/page/2/'') (js ''/'')"
    by (simp add: js_def)
  show ?thesis
    using a b validators_accept_exactly [of "js ''0-346''"]
      validators_accept_exactly [of "js ''/category/diet/page/2/''"]
    by blast
qed

section \<open>Properties of the date normalizer\<close>



section \<open>Properties of the record normalizer\<close>







section \<open>Properties of the crawl state\<close>

lemma emit_fields [simp]:
  "world (emit evs c) = world c"
  "seenUrls (emit evs c) = seenUrls c"
  "runReport (emit evs c) = runReport c"
  "events (emit evs c) = events c @ evs"
  "totalNew (emit evs c) = totalNew c"
  "sessionHealthy (emit evs c) = sessionHealthy c"
  "consecutiveSessionErrors (emit evs c) = consecutiveSessionErrors c"
  "newThisPage (emit evs c) = newThisPage c"
  "invalidUrlCount (emit evs c) = invalidUrlCount c"
  by (simp_all add: emit_def)

lemma onReport_fields [simp]:
  "world (onReport f c) = world c"
  "seenUrls (onReport f c) = seenUrls c"
  "runReport (onReport f c) = f (runReport c)"
  "events (onReport f c) = events c"
  "totalNew (onReport f c) = totalNew c"
  "sessionHealthy (onReport f c) = sessionHealthy c"
  "consecutiveSessionErrors (onReport f c) = consecutiveSessionErrors c"
  "newThisPage (onReport f c) = newThisPage c"
  "invalidUrlCount (onReport f c) = invalidUrlCount c"
  by (simp_all add: onReport_def)

lemma report_sectionStatus [simp]:
  "sectionStatus (countError t r) = sectionStatus r"
  "sectionStatus (onTotals f r) = sectionStatus r"
  "sectionStatus (onSectionStats slug g r) = sectionStatus r"
  "sectionStatus (countFailed slug r) = sectionStatus r"
  "sectionStatus (countSaved slug r) = sectionStatus r"
  "sectionStatus (countDiscovered slug n r) = sectionStatus r"
  "sectionStatus (setSectionStatus slug st r) = (sectionStatus r)(slug \<mapsto> st)"
  by (simp_all add: countError_def onTotals_def onSectionStats_def countFailed_def countSaved_def
      countDiscovered_def setSectionStatus_def split: option.splits)

lemma report_sections [simp]:
  "sections (countError t r) = sections r"
  "sections (onTotals f r) = sections r"
  "sections (setSectionStatus slug st r) = sections r"
  by (simp_all add: countError_def onTotals_def setSectionStatus_def)

lemma report_sections_None [simp]:
  "sections (onSectionStats slug g r) s = None \<longleftrightarrow> sections r s = None"
  "sections (countFailed slug r) s = None \<longleftrightarrow> sections r s = None"
  "sections (countSaved slug r) s = None \<longleftrightarrow> sections r s = None"
  "sections (countDiscovered slug n r) s = None \<longleftrightarrow> sections r s = None"
  by (simp_all add: onSectionStats_def countFailed_def countSaved_def countDiscovered_def
      split: option.splits)

section \<open>Properties of the retry loop\<close>

lemma giveUpOrRetry_cases:
  "giveUpOrRetry s a c = Retry c' \<longleftrightarrow> s \<and> a \<noteq> maxAttempts \<and> c' = emit [Backoff (a * 1000)] c"
  "giveUpOrRetry s a c = Done d c' \<longleftrightarrow> (\<not> s \<or> a = maxAttempts) \<and> d = None \<and> c' = c"
  by (auto simp: giveUpOrRetry_def)

text \<open>An attempt that is retried failed with a session error before the final attempt.\<close>

lemma attemptStep_Retry:
  assumes "attemptStep P B sec u a c = Retry c'"
  shows "a \<noteq> maxAttempts
         \<and> events c' = events c @ [ExtractPost u a SessionError, Backoff (a * 1000)]
         \<and> seenUrls c' = seenUrls c
         \<and> sessionHealthy c' = sessionHealthy c
         \<and> consecutiveSessionErrors c' = consecutiveSessionErrors c
         \<and> sectionStatus (runReport c') = sectionStatus (runReport c)
         \<and> sections (runReport c') = sections (runReport c)
         \<and> totalNew c' = totalNew c \<and> newThisPage c' = newThisPage c
         \<and> invalidUrlCount c' = invalidUrlCount c"
  using assms
  by (auto simp: attemptStep_def Let_def giveUpOrRetry_cases outcomeOf_def
      split: prod.splits sum.splits if_splits)

text \<open>An attempt that settles the URL.\<close>

lemma attemptStep_Done:
  assumes "attemptStep P B sec u a c = Done d c'"
  shows "\<exists>out. events c' = events c @ [ExtractPost u a out]
         \<and> (out = SessionError \<longrightarrow> a = maxAttempts)
         \<and> (d \<noteq> None \<longleftrightarrow> out = Ok)
         \<and> seenUrls c' = seenUrls c
         \<and> consecutiveSessionErrors c'
             = recordOutcome (consecutiveSessionErrors c) (outcomeClass out)
         \<and> (sessionHealthy c' \<longleftrightarrow>
               sessionHealthy c
               \<and> \<not> (out = SessionError
                      \<and> consecutiveSessionErrors c + 1 \<ge> SESSION_ERROR_POST_THRESHOLD))
         \<and> (out = SessionError \<and> consecutiveSessionErrors c + 1 \<ge> SESSION_ERROR_POST_THRESHOLD
              \<longrightarrow> sectionStatus (runReport c') = (sectionStatus (runReport c))(sec_slug sec \<mapsto> SessionFailed))
         \<and> (\<not> (out = SessionError \<and> consecutiveSessionErrors c + 1 \<ge> SESSION_ERROR_POST_THRESHOLD)
              \<longrightarrow> sectionStatus (runReport c') = sectionStatus (runReport c))
         \<and> sections (runReport c') = sections (runReport c)
         \<and> totalNew c' = totalNew c \<and> newThisPage c' = newThisPage c
         \<and> invalidUrlCount c' = invalidUrlCount c"
proof (cases "extractPost B (world c) sec u")
  case (Pair r w)
  show ?thesis
  proof (cases r)
    case (Inr raw)
    with Pair assms show ?thesis
      by (intro exI [of _ Ok]) (auto simp: attemptStep_def)
  next
    case (Inl err)
    show ?thesis
    proof (cases "isStagehandSessionError err")
      case True
      with Pair Inl assms show ?thesis
        by (intro exI [of _ SessionError])
           (auto simp: attemptStep_def Let_def giveUpOrRetry_cases outcomeOf_def split: if_splits)
    next
      case False
      with Pair Inl assms show ?thesis
        by (intro exI [of _ OtherError])
           (auto simp: attemptStep_def Let_def giveUpOrRetry_cases outcomeOf_def split: if_splits)
    qed
  qed
qed

lemma retried_self [simp]: "retried u a a = []"
  by (simp add: retried_def)

lemma retried_Cons:
  "a < k \<Longrightarrow> retried u a k = [ExtractPost u a SessionError, Backoff (a * 1000)] @ retried u (Suc a) k"
  by (simp add: retried_def upt_conv_Cons)

text \<open>
  What the retry loop does for a URL, from attempt \<open>a\<close>: the attempts \<open>a\<close>, ..., \<open>k - 1\<close>
  fail with a session error and are retried, and attempt \<open>k\<close> settles the URL.
\<close>

lemma attemptLoop_from:
  assumes "attemptLoop P B sec u a c = (d, c')" and "a \<le> maxAttempts"
  shows "\<exists>k out. a \<le> k \<and> k \<le> maxAttempts
         \<and> events c' = events c @ retried u a k @ [ExtractPost u k out]
         \<and> (out = SessionError \<longrightarrow> k = maxAttempts)
         \<and> (d \<noteq> None \<longleftrightarrow> out = Ok)
         \<and> seenUrls c' = seenUrls c
         \<and> consecutiveSessionErrors c'
             = recordOutcome (consecutiveSessionErrors c) (outcomeClass out)
         \<and> (sessionHealthy c' \<longleftrightarrow>
               sessionHealthy c
               \<and> \<not> (out = SessionError
                      \<and> consecutiveSessionErrors c + 1 \<ge> SESSION_ERROR_POST_THRESHOLD))
         \<and> (out = SessionError \<and> consecutiveSessionErrors c + 1 \<ge> SESSION_ERROR_POST_THRESHOLD
              \<longrightarrow> sectionStatus (runReport c') = (sectionStatus (runReport c))(sec_slug sec \<mapsto> SessionFailed))
         \<and> (\<not> (out = SessionError \<and> consecutiveSessionErrors c + 1 \<ge> SESSION_ERROR_POST_THRESHOLD)
              \<longrightarrow> sectionStatus (runReport c') = sectionStatus (runReport c))
         \<and> sections (runReport c') = sections (runReport c)
         \<and> totalNew c' = totalNew c \<and> newThisPage c' = newThisPage c
         \<and> invalidUrlCount c' = invalidUrlCount c"
  using assms
proof (induction P B sec u a c rule: attemptLoop.induct)
  case (1 P B sec u a c)
  show ?case
  proof (cases "attemptStep P B sec u a c")
    case (Done d0 c0)
    with "1.prems" have eq: "d0 = d" "c0 = c'"
      by (simp_all add: attemptLoop.simps [of P B sec u a c])
    from attemptStep_Done [OF Done] obtain out where
      "events c0 = events c @ [ExtractPost u a out]"
      "(out = SessionError \<longrightarrow> a = maxAttempts)" "(d0 \<noteq> None \<longleftrightarrow> out = Ok)"
      "seenUrls c0 = seenUrls c"
      "consecutiveSessionErrors c0 = recordOutcome (consecutiveSessionErrors c) (outcomeClass out)"
      "(sessionHealthy c0 \<longleftrightarrow> sessionHealthy c
          \<and> \<not> (out = SessionError \<and> consecutiveSessionErrors c + 1 \<ge> SESSION_ERROR_POST_THRESHOLD))"
      "(out = SessionError \<and> consecutiveSessionErrors c + 1 \<ge> SESSION_ERROR_POST_THRESHOLD
          \<longrightarrow> sectionStatus (runReport c0) = (sectionStatus (runReport c))(sec_slug sec \<mapsto> SessionFailed))"
      "(\<not> (out = SessionError \<and> consecutiveSessionErrors c + 1 \<ge> SESSION_ERROR_POST_THRESHOLD)
          \<longrightarrow> sectionStatus (runReport c0) = sectionStatus (runReport c))"
      "sections (runReport c0) = sections (runReport c)"
      "totalNew c0 = totalNew c" "newThisPage c0 = newThisPage c"
      "invalidUrlCount c0 = invalidUrlCount c"
      by blast
    with eq "1.prems"(2) show ?thesis
      by (intro exI [of _ a] exI [of _ out]) simp
  next
    case (Retry c1)
    note r = attemptStep_Retry [OF Retry]
    from r "1.prems"(2) have lt: "a < maxAttempts" by simp
    from Retry "1.prems" have run: "attemptLoop P B sec u (a + 1) c1 = (d, c')"
      by (simp add: attemptLoop.simps [of P B sec u a c])
    from lt have "a + 1 \<le> maxAttempts" by simp
    from "1.IH" [OF "1.prems"(2) Retry run this]
    obtain k out where k: "a + 1 \<le> k" "k \<le> maxAttempts"
      and ev: "events c' = events c1 @ retried u (a + 1) k @ [ExtractPost u k out]"
      and rest: "(out = SessionError \<longrightarrow> k = maxAttempts)" "(d \<noteq> None \<longleftrightarrow> out = Ok)"
        "seenUrls c' = seenUrls c1"
        "consecutiveSessionErrors c' = recordOutcome (consecutiveSessionErrors c1) (outcomeClass out)"
        "(sessionHealthy c' \<longleftrightarrow> sessionHealthy c1
            \<and> \<not> (out = SessionError \<and> consecutiveSessionErrors c1 + 1 \<ge> SESSION_ERROR_POST_THRESHOLD))"
        "(out = SessionError \<and> consecutiveSessionErrors c1 + 1 \<ge> SESSION_ERROR_POST_THRESHOLD
            \<longrightarrow> sectionStatus (runReport c') = (sectionStatus (runReport c1))(sec_slug sec \<mapsto> SessionFailed))"
        "(\<not> (out = SessionError \<and> consecutiveSessionErrors c1 + 1 \<ge> SESSION_ERROR_POST_THRESHOLD)
            \<longrightarrow> sectionStatus (runReport c') = sectionStatus (runReport c1))"
        "sections (runReport c') = sections (runReport c1)"
        "totalNew c' = totalNew c1" "newThisPage c' = newThisPage c1"
        "invalidUrlCount c' = invalidUrlCount c1"
      by blast
    from k have "a < k" by simp
    then have "events c' = events c @ retried u a k @ [ExtractPost u k out]"
      using ev r by (simp add: retried_Cons)
    with k rest r show ?thesis
      by (intro exI [of _ k] exI [of _ out]) simp
  qed
qed

lemma urlOutcomes_append [simp]: "urlOutcomes (xs @ ys) = urlOutcomes xs @ urlOutcomes ys"
  by (simp add: urlOutcomes_def map_filter_def)

lemma urlOutcomes_Nil [simp]: "urlOutcomes [] = []"
  by (simp add: urlOutcomes_def map_filter_def)

lemma urlOutcomes_Cons: "urlOutcomes (e # es) = (case urlOutcome e of None \<Rightarrow> urlOutcomes es | Some x \<Rightarrow> x # urlOutcomes es)"
  by (simp add: urlOutcomes_def map_filter_def split: option.splits)

lemma dedupGrows_refl [simp]: "dedupGrows c c"
  by (simp add: dedupGrows_def)

lemma dedupGrows_trans:
  assumes "dedupGrows c c1" and "dedupGrows c1 c2"
  shows "dedupGrows c c2"
proof -
  from assms(1) obtain e1 where 1: "seenUrls c \<subseteq> seenUrls c1" "events c1 = events c @ e1"
    "\<forall>u a out. ExtractPost u a out \<in> set e1 \<longrightarrow> u \<notin> seenUrls c \<and> u \<in> seenUrls c1"
    unfolding dedupGrows_def by blast
  from assms(2) obtain e2 where 2: "seenUrls c1 \<subseteq> seenUrls c2" "events c2 = events c1 @ e2"
    "\<forall>u a out. ExtractPost u a out \<in> set e2 \<longrightarrow> u \<notin> seenUrls c1 \<and> u \<in> seenUrls c2"
    unfolding dedupGrows_def by blast
  have "events c2 = events c @ (e1 @ e2)"
    using 1 2 by simp
  moreover have "\<forall>u a out. ExtractPost u a out \<in> set (e1 @ e2) \<longrightarrow> u \<notin> seenUrls c \<and> u \<in> seenUrls c2"
    using 1 2 by (auto; blast)
  ultimately show ?thesis
    unfolding dedupGrows_def using 1(1) 2(1) by blast
qed

lemma dedupGrows_quiet:
  assumes "seenUrls c \<subseteq> seenUrls c'" and "events c' = events c @ evs"
    and "\<forall>u a out. ExtractPost u a out \<notin> set evs"
  shows "dedupGrows c c'"
  using assms unfolding dedupGrows_def by blast

lemma healthTracks_refl [simp]: "healthTracks sec c c"
  by (simp add: healthTracks_def)

lemma healthTracks_trans:
  assumes "healthTracks sec c c1" and "healthTracks sec c1 c2"
  shows "healthTracks sec c c2"
proof -
  from assms(1) obtain e1 where 1: "events c1 = events c @ e1"
    "consecutiveSessionErrors c1 = foldl recordOutcome (consecutiveSessionErrors c) (urlOutcomes e1)"
    unfolding healthTracks_def by blast
  from assms(2) obtain e2 where 2: "events c2 = events c1 @ e2"
    "consecutiveSessionErrors c2 = foldl recordOutcome (consecutiveSessionErrors c1) (urlOutcomes e2)"
    unfolding healthTracks_def by blast
  have "events c2 = events c @ (e1 @ e2)
        \<and> consecutiveSessionErrors c2
            = foldl recordOutcome (consecutiveSessionErrors c) (urlOutcomes (e1 @ e2))"
    using 1 2 by simp
  then have ev: "\<exists>evs. events c2 = events c @ evs
        \<and> consecutiveSessionErrors c2
            = foldl recordOutcome (consecutiveSessionErrors c) (urlOutcomes evs)"
    by blast
  show ?thesis
    unfolding healthTracks_def
    using ev assms unfolding healthTracks_def by blast
qed

text \<open>A step that leaves the monitor and the status of the section alone.\<close>

lemma healthTracks_quiet:
  assumes "events c' = events c @ evs" and "urlOutcomes evs = []"
    and "consecutiveSessionErrors c' = consecutiveSessionErrors c"
    and "sessionHealthy c' = sessionHealthy c"
    and "sectionStatus (runReport c') = sectionStatus (runReport c)"
  shows "healthTracks sec c c'"
  unfolding healthTracks_def using assms by auto

lemma retried_events:
  "e \<in> set (retried u a k) \<Longrightarrow>
     (\<exists>i. a \<le> i \<and> i < k \<and> e = ExtractPost u i SessionError) \<or> (\<exists>i. e = Backoff (i * 1000))"
  by (auto simp: retried_def)

lemma urlOutcomes_retried: "k \<le> maxAttempts \<Longrightarrow> urlOutcomes (retried u a k) = []"
proof (induction "k - a" arbitrary: a)
  case 0
  then show ?case by (simp add: retried_def)
next
  case (Suc n)
  then have "a < k" by simp
  moreover from Suc have "urlOutcomes (retried u (Suc a) k) = []" by simp
  ultimately show ?case
    using Suc.prems by (simp add: retried_Cons urlOutcomes_Cons)
qed

lemma urlOutcomes_last:
  "(out = SessionError \<longrightarrow> k = maxAttempts) \<Longrightarrow>
     urlOutcomes [ExtractPost u k out] = [outcomeClass out]"
  by (cases out) (simp_all add: urlOutcomes_Cons)

text \<open>The retry loop of a URL: its events are about that URL, and the monitor follows.\<close>

lemma attemptLoop_events:
  assumes "attemptLoop P B sec u 1 c = (d, c')"
  shows "seenUrls c' = seenUrls c
         \<and> (\<exists>evs. events c' = events c @ evs
               \<and> (\<forall>e\<in>set evs. (\<exists>a out. e = ExtractPost u a out) \<or> (\<exists>ms. e = Backoff ms)))"
proof -
  from attemptLoop_from [OF assms] obtain k out where
    "events c' = events c @ retried u 1 k @ [ExtractPost u k out]" "seenUrls c' = seenUrls c"
    by (auto simp: maxAttempts_def)
  moreover have "\<forall>e\<in>set (retried u 1 k @ [ExtractPost u k out]).
                   (\<exists>a out. e = ExtractPost u a out) \<or> (\<exists>ms. e = Backoff ms)"
    using retried_events [of _ u 1 k] by (auto; blast)
  ultimately show ?thesis by blast
qed

lemma attemptLoop_health:
  assumes "attemptLoop P B sec u 1 c = (d, c')"
  shows "healthTracks sec c c'"
proof -
  from attemptLoop_from [OF assms] obtain k out where k: "k \<le> maxAttempts"
    and ev: "events c' = events c @ retried u 1 k @ [ExtractPost u k out]"
    and out: "out = SessionError \<longrightarrow> k = maxAttempts"
    and n: "consecutiveSessionErrors c' = recordOutcome (consecutiveSessionErrors c) (outcomeClass out)"
    and h: "sessionHealthy c' \<longleftrightarrow> sessionHealthy c
              \<and> \<not> (out = SessionError \<and> consecutiveSessionErrors c + 1 \<ge> SESSION_ERROR_POST_THRESHOLD)"
    and s1: "out = SessionError \<and> consecutiveSessionErrors c + 1 \<ge> SESSION_ERROR_POST_THRESHOLD
              \<longrightarrow> sectionStatus (runReport c') = (sectionStatus (runReport c))(sec_slug sec \<mapsto> SessionFailed)"
    and s2: "\<not> (out = SessionError \<and> consecutiveSessionErrors c + 1 \<ge> SESSION_ERROR_POST_THRESHOLD)
              \<longrightarrow> sectionStatus (runReport c') = sectionStatus (runReport c)"
    by (auto simp: maxAttempts_def)
  have "urlOutcomes (retried u 1 k @ [ExtractPost u k out]) = [outcomeClass out]"
    using k out by (simp add: urlOutcomes_retried urlOutcomes_last)
  with n have m: "consecutiveSessionErrors c'
      = foldl recordOutcome (consecutiveSessionErrors c)
          (urlOutcomes (retried u 1 k @ [ExtractPost u k out]))"
    by simp
  have t: "isHealthy (consecutiveSessionErrors c')"
    if "isHealthy (consecutiveSessionErrors c)" "sessionHealthy c'"
    using that n h by (cases out) (auto simp: isHealthy_def SESSION_ERROR_POST_THRESHOLD_def)
  have f: "sectionStatus (runReport c') (sec_slug sec) = Some SessionFailed"
    if "sessionHealthy c" "\<not> sessionHealthy c'"
    using that h s1 by auto
  have p: "sectionStatus (runReport c') (sec_slug sec) = Some SessionFailed"
    if "sectionStatus (runReport c) (sec_slug sec) = Some SessionFailed"
    using that s1 s2 by (cases "out = SessionError \<and> consecutiveSessionErrors c + 1 \<ge> SESSION_ERROR_POST_THRESHOLD") auto
  show ?thesis
    unfolding healthTracks_def using ev m h t f p by blast
qed

text \<open>Forwarding a detail to the sink asks for no extraction and leaves the monitor alone.\<close>

lemma savePost_frame:
  "seenUrls (postState (savePost P B sec d c)) = seenUrls c
   \<and> sessionHealthy (postState (savePost P B sec d c)) = sessionHealthy c
   \<and> consecutiveSessionErrors (postState (savePost P B sec d c)) = consecutiveSessionErrors c
   \<and> sectionStatus (runReport (postState (savePost P B sec d c))) = sectionStatus (runReport c)
   \<and> (\<exists>evs. events (postState (savePost P B sec d c)) = events c @ evs
         \<and> (\<forall>e\<in>set evs. (\<exists>r. e = Upsert r) \<or> (\<exists>s x. e = WriteMarkdown s x)))"
  by (auto simp: savePost_def Let_def split: prod.splits option.splits)

lemma savePost_steps:
  "dedupGrows c (postState (savePost P B sec d c))
   \<and> healthTracks sec c (postState (savePost P B sec d c))"
proof -
  from savePost_frame [of P B sec d c] obtain evs where
    f: "seenUrls (postState (savePost P B sec d c)) = seenUrls c"
       "sessionHealthy (postState (savePost P B sec d c)) = sessionHealthy c"
       "consecutiveSessionErrors (postState (savePost P B sec d c)) = consecutiveSessionErrors c"
       "sectionStatus (runReport (postState (savePost P B sec d c))) = sectionStatus (runReport c)"
       "events (postState (savePost P B sec d c)) = events c @ evs"
       "\<forall>e\<in>set evs. (\<exists>r. e = Upsert r) \<or> (\<exists>s x. e = WriteMarkdown s x)"
    by blast
  have q: "urlOutcomes evs = []"
    using f(6) by (induction evs) (auto simp: urlOutcomes_Cons)
  have "\<forall>u a out. ExtractPost u a out \<notin> set evs"
    using f(6) by auto
  with f have "dedupGrows c (postState (savePost P B sec d c))"
    by (intro dedupGrows_quiet [where evs = evs]) auto
  moreover have "healthTracks sec c (postState (savePost P B sec d c))"
    using f q by (intro healthTracks_quiet [where evs = evs]) auto
  ultimately show ?thesis ..
qed

lemma quiet_steps:
  assumes "seenUrls c' = seenUrls c" and "events c' = events c @ evs"
    and "\<forall>u a out. ExtractPost u a out \<notin> set evs"
    and "consecutiveSessionErrors c' = consecutiveSessionErrors c"
    and "sessionHealthy c' = sessionHealthy c"
    and "sectionStatus (runReport c') = sectionStatus (runReport c)"
  shows "dedupGrows c c' \<and> healthTracks sec c c'"
proof -
  have "urlOutcomes evs = []"
    using assms(3)
  proof (induction evs)
    case Nil
    then show ?case by simp
  next
    case (Cons e es)
    then show ?case by (cases e) (auto simp: urlOutcomes_Cons)
  qed
  then have "healthTracks sec c c'"
    using assms by (intro healthTracks_quiet [where evs = evs]) auto
  moreover have "dedupGrows c c'"
    using assms by (intro dedupGrows_quiet [where evs = evs]) auto
  ultimately show ?thesis by simp
qed

lemma steps_trans:
  assumes "dedupGrows c c1 \<and> healthTracks sec c c1" and "dedupGrows c1 c2 \<and> healthTracks sec c1 c2"
  shows "dedupGrows c c2 \<and> healthTracks sec c c2"
  using assms dedupGrows_trans healthTracks_trans by blast

lemma catchPageError_steps:
  "dedupGrows c (catchPageError sec err c) \<and> healthTracks sec c (catchPageError sec err c)"
  by (auto simp: catchPageError_def dedupGrows_def healthTracks_def)

text \<open>One summary.\<close>

lemma processPost_steps:
  "dedupGrows c (postState (processPost P B sec s c))
   \<and> healthTracks sec c (postState (processPost P B sec s c))"
proof (cases "sessionHealthy c \<and> isValidPostUrl (Some (ps_url s))
              \<and> normalizePostUrl P (ps_url s) (baseUrl sec) \<notin> seenUrls c")
  case False
  then show ?thesis
    by (auto simp: processPost_def Let_def intro!: quiet_steps [where evs = "[]", THEN conjunct1]
        quiet_steps [where evs = "[]", THEN conjunct2])
next
  case True
  define u where "u = normalizePostUrl P (ps_url s) (baseUrl sec)"
  define c0 where "c0 = c\<lparr>seenUrls := insert u (seenUrls c)\<rparr>"
  obtain d c1 where run: "attemptLoop P B sec u 1 c0 = (d, c1)"
    by (cases "attemptLoop P B sec u 1 c0") auto
  from attemptLoop_events [OF run] obtain evs where
    seen: "seenUrls c1 = seenUrls c0" and ev: "events c1 = events c0 @ evs"
    and only: "\<forall>e\<in>set evs. (\<exists>a out. e = ExtractPost u a out) \<or> (\<exists>ms. e = Backoff ms)"
    by blast
  have "\<forall>u' a out. ExtractPost u' a out \<in> set evs \<longrightarrow> u' \<notin> seenUrls c \<and> u' \<in> seenUrls c1"
    using only True seen by (auto simp: u_def c0_def)
  then have d1: "dedupGrows c c1"
    unfolding dedupGrows_def using seen ev by (auto simp: c0_def)
  have "healthTracks sec c0 c1"
    using attemptLoop_health [OF run] .
  then have h1: "healthTracks sec c c1"
    by (simp add: healthTracks_def c0_def)
  have first: "dedupGrows c c1 \<and> healthTracks sec c c1"
    using d1 h1 by simp
  have pp: "processPost P B sec s c =
      (if \<not> sessionHealthy c1 then BreakPosts c1
       else (case d of
               None \<Rightarrow> ContinuePosts (onReport (countFailed (sec_slug sec)) c1)
             | Some x \<Rightarrow> savePost P B sec x c1))"
    using True run by (simp add: processPost_def Let_def u_def c0_def)
  show ?thesis
  proof (cases "sessionHealthy c1")
    case False
    with pp first show ?thesis by simp
  next
    case h: True
    show ?thesis
    proof (cases d)
      case None
      have "dedupGrows c1 (onReport (countFailed (sec_slug sec)) c1)
            \<and> healthTracks sec c1 (onReport (countFailed (sec_slug sec)) c1)"
        by (rule quiet_steps [where evs = "[]"]) simp_all
      with first have "dedupGrows c (onReport (countFailed (sec_slug sec)) c1)
            \<and> healthTracks sec c (onReport (countFailed (sec_slug sec)) c1)"
        by (rule steps_trans)
      with pp h None show ?thesis by simp
    next
      case (Some x)
      from first savePost_steps [of c1 P B sec x]
      have "dedupGrows c (postState (savePost P B sec x c1))
            \<and> healthTracks sec c (postState (savePost P B sec x c1))"
        by (rule steps_trans)
      with pp h Some show ?thesis by simp
    qed
  qed
qed

text \<open>The summaries of a page.\<close>

lemma postsLoop_steps:
  "dedupGrows c (snd (postsLoop P B sec xs c)) \<and> healthTracks sec c (snd (postsLoop P B sec xs c))"
proof (induction xs arbitrary: c)
  case Nil
  then show ?case by simp
next
  case (Cons s rest)
  note step = processPost_steps [of c P B sec s]
  show ?case
  proof (cases "processPost P B sec s c")
    case (ContinuePosts c1)
    with step have "dedupGrows c c1 \<and> healthTracks sec c c1" by simp
    from steps_trans [OF this Cons.IH [of c1]] ContinuePosts show ?thesis by simp
  next
    case (BreakPosts c1)
    with step show ?thesis by simp
  next
    case (ThrowPosts err c1)
    with step show ?thesis by simp
  qed
qed

text \<open>One listing page.\<close>

lemma enterPage_steps:
  "dedupGrows c (snd (enterPage B sec n cur c)) \<and> healthTracks sec c (snd (enterPage B sec n cur c))"
proof (cases "n > 1")
  case True
  obtain e w where g: "goto B (world c) cur = (e, w)"
    by (cases "goto B (world c) cur") auto
  show ?thesis
    by (rule quiet_steps [where evs = "Goto cur # (if e = None then [Wait 3000] else [])"])
       (use True g in \<open>auto simp: enterPage_def Let_def split: option.splits\<close>)
next
  case False
  show ?thesis
    by (rule quiet_steps [where evs = "[]"])
       (use False in \<open>auto simp: enterPage_def Let_def split: option.splits\<close>)
qed

lemma extractCategoryPage_steps:
  "dedupGrows c (snd (extractCategoryPage B sec cur c))
   \<and> healthTracks sec c (snd (extractCategoryPage B sec cur c))"
proof -
  obtain r w where g: "extractCategory B (world c) sec cur = (r, w)"
    by (cases "extractCategory B (world c) sec cur") auto
  show ?thesis
    by (rule quiet_steps [where evs = "[ExtractCategory cur (case r of Inl err \<Rightarrow> outcomeOf err | Inr raw \<Rightarrow> Ok)]"])
       (use g in \<open>auto simp: extractCategoryPage_def split: sum.splits\<close>)
qed

lemma notePosts_steps:
  "dedupGrows c ((notePosts B sec cur result c)\<lparr>newThisPage := 0, invalidUrlCount := 0\<rparr>)
   \<and> healthTracks sec c ((notePosts B sec cur result c)\<lparr>newThisPage := 0, invalidUrlCount := 0\<rparr>)"
  by (rule quiet_steps [where evs = "if length (posts result) = 0 then [ExtractDebug cur] else []"])
     (auto simp: notePosts_def)

lemma pageIteration_steps:
  "dedupGrows c (pageState (pageIteration P B sec n cur c))
   \<and> healthTracks sec c (pageState (pageIteration P B sec n cur c))"
proof -
  obtain e1 c1 where en: "enterPage B sec n cur c = (e1, c1)"
    by (cases "enterPage B sec n cur c") auto
  with enterPage_steps [of c B sec n cur] have s1: "dedupGrows c c1 \<and> healthTracks sec c c1"
    by simp
  show ?thesis
  proof (cases e1)
    case (Some err)
    with en s1 show ?thesis by (simp add: pageIteration_def)
  next
    case None
    obtain r c2 where ex: "extractCategoryPage B sec cur c1 = (r, c2)"
      by (cases "extractCategoryPage B sec cur c1") auto
    with extractCategoryPage_steps [of c1 B sec cur] have "dedupGrows c1 c2 \<and> healthTracks sec c1 c2"
      by simp
    with s1 have s2: "dedupGrows c c2 \<and> healthTracks sec c c2"
      by (rule steps_trans)
    show ?thesis
    proof (cases r)
      case (Inl err)
      from steps_trans [OF s2 catchPageError_steps [of c2 sec err]] en None ex Inl
      show ?thesis by (simp add: pageIteration_def)
    next
      case (Inr result)
      define c2' where "c2' = (notePosts B sec cur result c2)\<lparr>newThisPage := 0, invalidUrlCount := 0\<rparr>"
      obtain e3 c3 where pl: "postsLoop P B sec (posts result) c2' = (e3, c3)"
        by (cases "postsLoop P B sec (posts result) c2'") auto
      from notePosts_steps [of c2 B sec cur result] have "dedupGrows c2 c2' \<and> healthTracks sec c2 c2'"
        by (simp add: c2'_def)
      with s2 have "dedupGrows c c2' \<and> healthTracks sec c c2'"
        by (rule steps_trans)
      moreover from postsLoop_steps [of c2' P B sec "posts result"] pl
      have "dedupGrows c2' c3 \<and> healthTracks sec c2' c3" by simp
      ultimately have s3: "dedupGrows c c3 \<and> healthTracks sec c c3"
        by (rule steps_trans)
      show ?thesis
      proof (cases e3)
        case None': None
        have "dedupGrows c3 (c3\<lparr>totalNew := totalNew c3 + newThisPage c3\<rparr>)
              \<and> healthTracks sec c3 (c3\<lparr>totalNew := totalNew c3 + newThisPage c3\<rparr>)"
          by (rule quiet_steps [where evs = "[]"]) simp_all
        with s3 have "dedupGrows c (c3\<lparr>totalNew := totalNew c3 + newThisPage c3\<rparr>)
              \<and> healthTracks sec c (c3\<lparr>totalNew := totalNew c3 + newThisPage c3\<rparr>)"
          by (rule steps_trans)
        with en None ex Inr pl None' show ?thesis
          by (simp add: pageIteration_def c2'_def)
      next
        case (Some err)
        from steps_trans [OF s3 catchPageError_steps [of c3 sec err]] en None ex Inr pl Some
        show ?thesis by (simp add: pageIteration_def c2'_def)
      qed
    qed
  qed
qed

text \<open>The pages of a section.\<close>

lemma pageLoop_steps:
  "dedupGrows c (snd (pageLoop P B sec m n cur c))
   \<and> healthTracks sec c (snd (pageLoop P B sec m n cur c))"
proof (induction P B sec m n cur c rule: pageLoop.induct)
  case (1 P B sec m n cur c)
  show ?case
  proof (cases cur)
    case None
    then show ?thesis by (simp add: pageLoop.simps [of P B sec m n None c])
  next
    case (Some u)
    show ?thesis
    proof (cases "u \<noteq> [] \<and> n \<le> m \<and> sessionHealthy c")
      case False
      with Some show ?thesis by (auto simp: pageLoop.simps [of P B sec m n "Some u" c])
    next
      case True
      note step = pageIteration_steps [of c P B sec n u]
      show ?thesis
      proof (cases "pageIteration P B sec n u c")
        case (ContinuePages nxt c1)
        with step have a: "dedupGrows c c1 \<and> healthTracks sec c c1" by simp
        from "1.IH" [OF Some _ ContinuePages] True
        have b: "dedupGrows c1 (snd (pageLoop P B sec m (n + 1) nxt c1))
                 \<and> healthTracks sec c1 (snd (pageLoop P B sec m (n + 1) nxt c1))"
          by simp
        from steps_trans [OF a b] Some True ContinuePages show ?thesis
          by (simp add: pageLoop.simps [of P B sec m n "Some u" c])
      next
        case (BreakPages c1)
        with step Some True show ?thesis
          by (simp add: pageLoop.simps [of P B sec m n "Some u" c])
      next
        case (ThrowPages err c1)
        with step Some True show ?thesis
          by (simp add: pageLoop.simps [of P B sec m n "Some u" c])
      qed
    qed
  qed
qed

text \<open>A section, and the sections of a run.\<close>

lemma scrapeSection_steps:
  "dedupGrows c (snd (scrapeSection P B sec m c))
   \<and> healthTracks sec (c\<lparr>totalNew := 0, sessionHealthy := True, consecutiveSessionErrors := 0\<rparr>)
        (snd (scrapeSection P B sec m c))"
proof -
  define c0 where "c0 = c\<lparr>totalNew := 0, sessionHealthy := True, consecutiveSessionErrors := 0\<rparr>"
  obtain e w where np: "newPage B (world c0) (baseUrl sec) = (e, w)"
    by (cases "newPage B (world c0) (baseUrl sec)") auto
  have d0: "dedupGrows c c0"
    by (simp add: dedupGrows_def c0_def)
  show ?thesis
  proof (cases e)
    case (Some err)
    have "dedupGrows c0 (emit [NewPage (baseUrl sec)] (c0\<lparr>world := w\<rparr>))
          \<and> healthTracks sec c0 (emit [NewPage (baseUrl sec)] (c0\<lparr>world := w\<rparr>))"
      by (rule quiet_steps [where evs = "[NewPage (baseUrl sec)]"]) simp_all
    with d0 np Some show ?thesis
      unfolding scrapeSection_def Let_def c0_def [symmetric]
      by (auto intro: dedupGrows_trans)
  next
    case None
    define c1 where "c1 = emit [NewPage (baseUrl sec), Wait 3000] (c0\<lparr>world := w\<rparr>)"
    have "dedupGrows c0 c1 \<and> healthTracks sec c0 c1"
      by (rule quiet_steps [where evs = "[NewPage (baseUrl sec), Wait 3000]"]) (simp_all add: c1_def)
    from steps_trans [OF this pageLoop_steps [of c1 P B sec m 1 "Some (baseUrl sec)"]]
    have "dedupGrows c0 (snd (pageLoop P B sec m 1 (Some (baseUrl sec)) c1))
          \<and> healthTracks sec c0 (snd (pageLoop P B sec m 1 (Some (baseUrl sec)) c1))" .
    with d0 np None show ?thesis
      unfolding scrapeSection_def Let_def c0_def [symmetric]
      by (auto simp: c1_def split: prod.splits option.splits intro: dedupGrows_trans)
  qed
qed

lemma dedupGrows_fields:
  "seenUrls c' = seenUrls c \<Longrightarrow> events c' = events c \<Longrightarrow> dedupGrows c c'"
  by (simp add: dedupGrows_def)

lemma runSection_dedup: "dedupGrows c (snd (runSection P B m sec c))"
proof -
  define c1 where "c1 = onReport (onTotals (\<lambda>t. t\<lparr>sectionsVisited := sectionsVisited t + 1\<rparr>)) c"
  obtain e w where si: "stagehandInit B (world c1) sec = (e, w)"
    by (cases "stagehandInit B (world c1) sec") auto
  have d1: "dedupGrows c (c1\<lparr>world := w\<rparr>)"
    by (rule dedupGrows_fields) (simp_all add: c1_def)
  show ?thesis
  proof (cases e)
    case (Some err)
    with si show ?thesis
      unfolding runSection_def Let_def c1_def [symmetric]
      by (auto intro!: dedupGrows_fields simp: c1_def)
  next
    case None
    obtain r c2 where sc: "scrapeSection P B sec m (c1\<lparr>world := w\<rparr>) = (r, c2)"
      by (cases "scrapeSection P B sec m (c1\<lparr>world := w\<rparr>)") auto
    with scrapeSection_steps [of "c1\<lparr>world := w\<rparr>" P B sec m] have "dedupGrows (c1\<lparr>world := w\<rparr>) c2"
      by simp
    with d1 have d2: "dedupGrows c c2"
      by (rule dedupGrows_trans)
    have "dedupGrows c2 ((onReport f c2)\<lparr>world := x\<rparr>)" for f x
      by (rule dedupGrows_fields) simp_all
    with d2 have "dedupGrows c ((onReport f c2)\<lparr>world := x\<rparr>)" for f x
      by (rule dedupGrows_trans)
    with si None sc show ?thesis
      unfolding runSection_def Let_def c1_def [symmetric]
      by (cases r) auto
  qed
qed

lemma runSections_dedup: "dedupGrows c (snd (runSections P B m secs t c))"
proof (induction secs arbitrary: t c)
  case Nil
  then show ?case by simp
next
  case (Cons sec rest)
  obtain n c1 where rs: "runSection P B m sec c = (n, c1)"
    by (cases "runSection P B m sec c") auto
  with runSection_dedup [of c P B m sec] have "dedupGrows c c1" by simp
  from dedupGrows_trans [OF this Cons.IH [of c1 "t + n"]] rs show ?case by simp
qed

text \<open>Once the flag is down, the loops of the section do nothing more.\<close>

lemma unhealthy_processPost: "\<not> sessionHealthy c \<Longrightarrow> processPost P B sec s c = BreakPosts c"
  by (simp add: processPost_def)

lemma unhealthy_postsLoop: "\<not> sessionHealthy c \<Longrightarrow> postsLoop P B sec xs c = (None, c)"
  by (cases xs) (simp_all add: unhealthy_processPost)

lemma unhealthy_pageLoop: "\<not> sessionHealthy c \<Longrightarrow> pageLoop P B sec m n cur c = (None, c)"
  by (simp add: pageLoop.simps [of P B sec m n cur c] split: option.splits)

section \<open>Reading the Run Report\<close>

lemma report_totals [simp]:
  "totals (countError t r) = totals r"
  "totals (setSectionStatus slug st r) = totals r"
  "totals (onSectionStats slug g r) = totals r"
  "totals (onTotals f r) = f (totals r)"
  "totals (countFailed slug r) = (totals r)\<lparr>totalPostsFailed := totalPostsFailed (totals r) + 1\<rparr>"
  "totals (countSaved slug r) = (totals r)\<lparr>totalPostsSaved := totalPostsSaved (totals r) + 1\<rparr>"
  "totals (countDiscovered slug n r)
     = (totals r)\<lparr>totalPostsDiscovered := totalPostsDiscovered (totals r) + n\<rparr>"
  by (simp_all add: countError_def setSectionStatus_def onSectionStats_def onTotals_def
      countFailed_def countSaved_def countDiscovered_def split: option.splits)

lemma report_sections_at:
  "sections (onSectionStats slug g r) s
     = (if s = slug then map_option g (sections r slug) else sections r s)"
  "sections (countFailed slug r) s
     = (if s = slug
        then map_option (\<lambda>st. st\<lparr>postsFailed := postsFailed st + 1\<rparr>) (sections r slug)
        else sections r s)"
  "sections (countSaved slug r) s
     = (if s = slug
        then map_option (\<lambda>st. st\<lparr>postsSaved := postsSaved st + 1\<rparr>) (sections r slug)
        else sections r s)"
  "sections (countDiscovered slug n r) s
     = (if s = slug
        then map_option (\<lambda>st. st\<lparr>postsDiscovered := postsDiscovered st + n\<rparr>) (sections r slug)
        else sections r s)"
  by (simp_all add: onSectionStats_def onTotals_def countFailed_def countSaved_def
      countDiscovered_def split: option.splits)

section \<open>The examples, evaluated\<close>

lemma example_posts_distinct:
  "postA \<noteq> postB" "postA \<noteq> postC" "postB \<noteq> postC"
  "postB \<noteq> postA" "postC \<noteq> postA" "postC \<noteq> postB"
  by (simp_all add: postA_def postB_def postC_def js_def)

lemma example_posts_valid:
  "isValidPostUrl (Some postA)" "isValidPostUrl (Some postB)" "isValidPostUrl (Some postC)"
  "normalizePostUrl P postA base = postA" "normalizePostUrl P postB base = postB"
  "normalizePostUrl P postC base = postC"
  by (simp_all add: isValidPostUrl_def normalizePostUrl_def postA_def postB_def postC_def js_def
      trim_def isJsWhite_def Let_def)

lemma example_errors:
  "isStagehandSessionError sessionLost" "\<not> isStagehandSessionError badResponse"
  "outcomeOf sessionLost = SessionError" "outcomeOf badResponse = OtherError"
  "errorTypeOf sessionLost = js ''StagehandServerError''"
  "errorTypeOf badResponse = js ''SyntaxError''"
  by (simp_all add: outcomeOf_def sessionLost_def badResponse_def js_def asciiUpper_def)

lemma example_listings:
  "shapeCategoryPage (listingOf [postA, postB, postC] None)
     = \<lparr>posts = [summaryOf postA, summaryOf postB, summaryOf postC], nextPageUrl = None\<rparr>"
  "shapeCategoryPage (listingOf [postA, postB] (Some h))
     = \<lparr>posts = [summaryOf postA, summaryOf postB], nextPageUrl = Some h\<rparr>"
  "shapeCategoryPage (listingOf [] None) = \<lparr>posts = [], nextPageUrl = None\<rparr>"
  by (simp_all add: shapeCategoryPage_def parseCategoryPage_def listingOf_def parsePostSummary_def
      summaryOf_def js_def List.map_filter_def)

lemma example_report:
  "sections (initialReport SECTIONS) (sec_slug drDiet) = Some emptyStats"
  "sectionStatus (initialReport SECTIONS) (sec_slug drDiet) = Some Pending"
  "totals (initialReport SECTIONS)
     = \<lparr>sectionsVisited = 0, categoryPagesVisited = 0, totalPostsDiscovered = 0,
        totalPostsSaved = 0, totalPostsFailed = 0\<rparr>"
  by (simp_all add: initialReport_def SECTIONS_def drDiet_def js_def)

lemma example_backend:
  "newPage (scripted st l) w u = (None, w)"
  "goto (scripted st l) w u = (None, w)"
  "extractCategory (scripted st l) w sec u = (l u, w)"
  "extractDebug (scripted st l) w sec u = w"
  "extractPost (scripted st l) (r # rest) sec u = (r, rest)"
  "extractPost (scripted st l) [] sec u = (Inl NonError, [])"
  "upsertPost (scripted st l) w x = (None, w)"
  "writePostMarkdown (scripted st l) w sec d = (None, w)"
  "getExistingPostUrls (scripted st l) w = (Inr st, w)"
  "stagehandInit (scripted st l) w sec = (None, w)"
  "stagehandClose (scripted st l) w sec = w"
  by (simp_all add: scripted_def)

lemma example_pages:
  "baseUrl drDiet \<noteq> []"
  "js ''https://www.paulcheksblog.com/category/diet/page/2/'' \<noteq> []"
  "js ''https://www.paulcheksblog.com/category/diet/page/2/'' \<noteq> baseUrl drDiet"
  "nextPageTarget blogPlatform drDiet (Suc 0)
     \<lparr>posts = ps, nextPageUrl = Some (js ''/category/diet/page/2/'')\<rparr>
     = Some (js ''https://www.paulcheksblog.com/category/diet/page/2/'')"
  "nextPageTarget P drDiet (Suc 0) \<lparr>posts = p # ps, nextPageUrl = Some (js ''0-346'')\<rparr>
     = Some (js ''https://www.paulcheksblog.com/category/diet/page/2/'')"
  "nextPageTarget P drDiet (Suc 0) \<lparr>posts = p # ps, nextPageUrl = None\<rparr>
     = Some (js ''https://www.paulcheksblog.com/category/diet/page/2/'')"
  "nextPageTarget P sec n \<lparr>posts = [], nextPageUrl = None\<rparr> = None"
  by (simp_all add: drDiet_def js_def nextPageTarget_def isValidPaginationUrl_def trim_def
      isJsWhite_def testElementId_def isDigit_def normalizePostUrl_def blogPlatform_def
      blogHref_def blogOrigin_def isPlainPathChar_def Let_def showNat.simps digitChar_def)

lemma example_detail:
  "shapePostDetail blogPlatform (detailOf postB) postB drDiet
     = \<lparr>pd_slug = js ''post-b'', pd_title = js ''Post'', pd_url = postB, pd_date = None,
        pd_doctorSection = js ''dr-diet'', pd_categories = Some [], pd_tags = Some [],
        pd_markdown = []\<rparr>"
  by (simp add: shapePostDetail_def parsePostDetail_def detailOf_def fallbackPostDetail_def
      slugFromUrl_def blogPlatform_def blogPathname_def blogOrigin_def postB_def drDiet_def
      js_def isPlainPathChar_def isDigit_def Let_def toLowerCase_def asciiLower_def
      isSlugChar_def)

lemma replicate_nine: "replicate 9 x = [x, x, x, x, x, x, x, x, x]"
  by (simp add: eval_nat_numeral)

lemmas crawl_unfold =
  scrapeSection_def pageLoop.simps pageIteration_def enterPage_def extractCategoryPage_def
  notePosts_def processPost_def savePost_def attemptLoop.simps attemptStep_def giveUpOrRetry_def
  catchPageError_def maxAttempts_def SESSION_ERROR_POST_THRESHOLD_def startOfRun_def Let_def
  emit_def onReport_def summaryOf_def

lemmas example_facts =
  example_posts_distinct example_posts_valid example_errors example_listings example_report
  example_backend example_pages example_detail

text \<open>The crawl on the lost session: three URLs, nine failed attempts, two failures counted.\<close>

lemma lostSessionCrawl_result:
  "\<exists>r. lostSessionCrawl =
         (Inr 0,
          \<lparr>world = [], seenUrls = {postC, postB, postA}, runReport = r,
           events =
             [NewPage (baseUrl drDiet), Wait 3000, ExtractCategory (baseUrl drDiet) Ok,
              ExtractPost postA 1 SessionError, Backoff 1000,
              ExtractPost postA 2 SessionError, Backoff 2000,
              ExtractPost postA 3 SessionError,
              ExtractPost postB 1 SessionError, Backoff 1000,
              ExtractPost postB 2 SessionError, Backoff 2000,
              ExtractPost postB 3 SessionError,
              ExtractPost postC 1 SessionError, Backoff 1000,
              ExtractPost postC 2 SessionError, Backoff 2000,
              ExtractPost postC 3 SessionError],
           totalNew = 0, sessionHealthy = False, consecutiveSessionErrors = 3,
           newThisPage = 0, invalidUrlCount = 0\<rparr>)
       \<and> sectionStatus r (sec_slug drDiet) = Some SessionFailed
       \<and> sections r (sec_slug drDiet)
           = Some \<lparr>pagesVisited = 1, postsDiscovered = 3, postsSaved = 0, postsFailed = 2\<rparr>
       \<and> totalPostsFailed (totals r) = 2"
  by (simp add: lostSessionCrawl_def threePosts_def crawl_unfold example_facts
      replicate_nine numeral_2_eq_2 numeral_3_eq_3 report_sections_at emptyStats_def)

text \<open>
  The crawl of the two pages: \<open>postA\<close> is skipped, \<open>postB\<close> is extracted once and saved, the
  hint leads to the second page, which ends the section.
\<close>

lemma twoPageCrawl_result:
  "\<exists>r. twoPageCrawl =
         (Inr 1,
          \<lparr>world = [], seenUrls = {postB, postA}, runReport = r,
           events =
             [NewPage (baseUrl drDiet), Wait 3000, ExtractCategory (baseUrl drDiet) Ok,
              ExtractPost postB 1 Ok,
              Upsert \<lparr>pr_url = postB, pr_slug = js ''post-b'', pr_title = js ''Post'',
                      pr_datePublished = None, pr_doctorSection = js ''dr-diet'',
                      pr_categories = [], pr_tags = [], pr_markdown = []\<rparr>,
              WriteMarkdown (sec_slug drDiet)
                \<lparr>pd_slug = js ''post-b'', pd_title = js ''Post'', pd_url = postB,
                 pd_date = None, pd_doctorSection = js ''dr-diet'', pd_categories = Some [],
                 pd_tags = Some [], pd_markdown = []\<rparr>,
              Goto (js ''https://www.paulcheksblog.com/category/diet/page/2/''), Wait 3000,
              ExtractCategory (js ''https://www.paulcheksblog.com/category/diet/page/2/'') Ok,
              ExtractDebug (js ''https://www.paulcheksblog.com/category/diet/page/2/'')],
           totalNew = 1, sessionHealthy = True, consecutiveSessionErrors = 0,
           newThisPage = 0, invalidUrlCount = 0\<rparr>)
       \<and> sectionStatus r (sec_slug drDiet) = Some Pending
       \<and> sections r (sec_slug drDiet)
           = Some \<lparr>pagesVisited = 2, postsDiscovered = 2, postsSaved = 1, postsFailed = 0\<rparr>"
  by (simp add: twoPageCrawl_def twoPages_def crawl_unfold example_facts
      numeral_2_eq_2 numeral_3_eq_3 report_sections_at emptyStats_def normalizeDate_def)

section \<open>Pagination\<close>



lemma lostSessionCrawl_facts:
  shows "fst lostSessionCrawl = Inr 0"
    and "seenUrls (snd lostSessionCrawl) = {postC, postB, postA}"
    and "events (snd lostSessionCrawl) =
             [NewPage (baseUrl drDiet), Wait 3000, ExtractCategory (baseUrl drDiet) Ok,
              ExtractPost postA 1 SessionError, Backoff 1000,
              ExtractPost postA 2 SessionError, Backoff 2000,
              ExtractPost postA 3 SessionError,
              ExtractPost postB 1 SessionError, Backoff 1000,
              ExtractPost postB 2 SessionError, Backoff 2000,
              ExtractPost postB 3 SessionError,
              ExtractPost postC 1 SessionError, Backoff 1000,
              ExtractPost postC 2 SessionError, Backoff 2000,
              ExtractPost postC 3 SessionError]"
    and "\<not> sessionHealthy (snd lostSessionCrawl)"
    and "consecutiveSessionErrors (snd lostSessionCrawl) = 3"
    and "sectionStatus (runReport (snd lostSessionCrawl)) (sec_slug drDiet) = Some SessionFailed"
    and "sections (runReport (snd lostSessionCrawl)) (sec_slug drDiet)
           = Some \<lparr>pagesVisited = 1, postsDiscovered = 3, postsSaved = 0, postsFailed = 2\<rparr>"
    and "totalPostsFailed (totals (runReport (snd lostSessionCrawl))) = 2"
proof -
  from lostSessionCrawl_result obtain r where
    eq: "lostSessionCrawl = (Inr 0, \<lparr>world = [], seenUrls = {postC, postB, postA}, runReport = r,
           events =
             [NewPage (baseUrl drDiet), Wait 3000, ExtractCategory (baseUrl drDiet) Ok,
              ExtractPost postA 1 SessionError, Backoff 1000,
              ExtractPost postA 2 SessionError, Backoff 2000,
              ExtractPost postA 3 SessionError,
              ExtractPost postB 1 SessionError, Backoff 1000,
              ExtractPost postB 2 SessionError, Backoff 2000,
              ExtractPost postB 3 SessionError,
              ExtractPost postC 1 SessionError, Backoff 1000,
              ExtractPost postC 2 SessionError, Backoff 2000,
              ExtractPost postC 3 SessionError],
           totalNew = 0, sessionHealthy = False, consecutiveSessionErrors = 3,
           newThisPage = 0, invalidUrlCount = 0\<rparr>)"
    and r: "sectionStatus r (sec_slug drDiet) = Some SessionFailed"
       "sections r (sec_slug drDiet)
           = Some \<lparr>pagesVisited = 1, postsDiscovered = 3, postsSaved = 0, postsFailed = 2\<rparr>"
       "totalPostsFailed (totals r) = 2"
    by blast
  show "fst lostSessionCrawl = Inr 0"
    and "seenUrls (snd lostSessionCrawl) = {postC, postB, postA}"
    and "events (snd lostSessionCrawl) =
             [NewPage (baseUrl drDiet), Wait 3000, ExtractCategory (baseUrl drDiet) Ok,
              ExtractPost postA 1 SessionError, Backoff 1000,
              ExtractPost postA 2 SessionError, Backoff 2000,
              ExtractPost postA 3 SessionError,
              ExtractPost postB 1 SessionError, Backoff 1000,
              ExtractPost postB 2 SessionError, Backoff 2000,
              ExtractPost postB 3 SessionError,
              ExtractPost postC 1 SessionError, Backoff 1000,
              ExtractPost postC 2 SessionError, Backoff 2000,
              ExtractPost postC 3 SessionError]"
    and "\<not> sessionHealthy (snd lostSessionCrawl)"
    and "consecutiveSessionErrors (snd lostSessionCrawl) = 3"
    and "sectionStatus (runReport (snd lostSessionCrawl)) (sec_slug drDiet) = Some SessionFailed"
    and "sections (runReport (snd lostSessionCrawl)) (sec_slug drDiet)
           = Some \<lparr>pagesVisited = 1, postsDiscovered = 3, postsSaved = 0, postsFailed = 2\<rparr>"
    and "totalPostsFailed (totals (runReport (snd lostSessionCrawl))) = 2"
    using r unfolding eq by simp_all
qed

lemma twoPageCrawl_facts:
  shows "fst twoPageCrawl = Inr 1"
    and "seenUrls (snd twoPageCrawl) = {postB, postA}"
    and "ExtractPost postB 1 Ok \<in> set (events (snd twoPageCrawl))"
    and "Goto (js ''https://www.paulcheksblog.com/category/diet/page/2/'')
           \<in> set (events (snd twoPageCrawl))"
    and "sessionHealthy (snd twoPageCrawl)"
    and "sections (runReport (snd twoPageCrawl)) (sec_slug drDiet)
           = Some \<lparr>pagesVisited = 2, postsDiscovered = 2, postsSaved = 1, postsFailed = 0\<rparr>"
proof -
  from twoPageCrawl_result obtain r where
    eq: "twoPageCrawl =
         (Inr 1,
          \<lparr>world = [], seenUrls = {postB, postA}, runReport = r,
           events =
             [NewPage (baseUrl drDiet), Wait 3000, ExtractCategory (baseUrl drDiet) Ok,
              ExtractPost postB 1 Ok,
              Upsert \<lparr>pr_url = postB, pr_slug = js ''post-b'', pr_title = js ''Post'',
                      pr_datePublished = None, pr_doctorSection = js ''dr-diet'',
                      pr_categories = [], pr_tags = [], pr_markdown = []\<rparr>,
              WriteMarkdown (sec_slug drDiet)
                \<lparr>pd_slug = js ''post-b'', pd_title = js ''Post'', pd_url = postB,
                 pd_date = None, pd_doctorSection = js ''dr-diet'', pd_categories = Some [],
                 pd_tags = Some [], pd_markdown = []\<rparr>,
              Goto (js ''https://www.paulcheksblog.com/category/diet/page/2/''), Wait 3000,
              ExtractCategory (js ''https://www.paulcheksblog.com/category/diet/page/2/'') Ok,
              ExtractDebug (js ''https://www.paulcheksblog.com/category/diet/page/2/'')],
           totalNew = 1, sessionHealthy = True, consecutiveSessionErrors = 0,
           newThisPage = 0, invalidUrlCount = 0\<rparr>)"
    and r: "sections r (sec_slug drDiet)
           = Some \<lparr>pagesVisited = 2, postsDiscovered = 2, postsSaved = 1, postsFailed = 0\<rparr>"
    by blast
  show "fst twoPageCrawl = Inr 1"
    and "seenUrls (snd twoPageCrawl) = {postB, postA}"
    and "ExtractPost postB 1 Ok \<in> set (events (snd twoPageCrawl))"
    and "Goto (js ''https://www.paulcheksblog.com/category/diet/page/2/'')
           \<in> set (events (snd twoPageCrawl))"
    and "sessionHealthy (snd twoPageCrawl)"
    and "sections (runReport (snd twoPageCrawl)) (sec_slug drDiet)
           = Some \<lparr>pagesVisited = 2, postsDiscovered = 2, postsSaved = 1, postsFailed = 0\<rparr>"
    using r unfolding eq by simp_all
qed

section \<open>The healthy flag and the Dedup Set\<close>

lemma healthTracks_flag: "healthTracks sec c c' \<Longrightarrow> sessionHealthy c' \<Longrightarrow> sessionHealthy c"
  by (simp add: healthTracks_def)

text \<open>
  C5.  Within the crawl of a section the healthy flag is monotonic: no retry loop, no
  summary, no page and no loop over them brings it back up, and once it is down the loops
  over the summaries and over the pages return at once, asking for no further detail
  extraction.  A crawl that ends with the flag down has marked the section as
  session-failed, and \<open>main\<close> leaves that mark when it settles the status, so the section
  is not complete.  And every crawl starts from counter 0 and flag up, whatever the
  monitor was before: nothing is carried over from one section to the next.
\<close>

theorem healthy_flag_monotonic:
  "(sessionHealthy (snd (attemptLoop P B sec u 1 c)) \<longrightarrow> sessionHealthy c)
   \<and> (sessionHealthy (postState (processPost P B sec s c)) \<longrightarrow> sessionHealthy c)
   \<and> (sessionHealthy (snd (postsLoop P B sec xs c)) \<longrightarrow> sessionHealthy c)
   \<and> (sessionHealthy (pageState (pageIteration P B sec n cur c)) \<longrightarrow> sessionHealthy c)
   \<and> (sessionHealthy (snd (pageLoop P B sec m n nxt c)) \<longrightarrow> sessionHealthy c)
   \<and> (\<not> sessionHealthy c \<longrightarrow>
         postsLoop P B sec xs c = (None, c) \<and> pageLoop P B sec m n nxt c = (None, c))
   \<and> (\<not> sessionHealthy (snd (scrapeSection P B sec m c)) \<longrightarrow>
         sectionStatus (runReport (snd (scrapeSection P B sec m c))) (sec_slug sec)
           = Some SessionFailed)
   \<and> (fst (stagehandInit B (world c) sec) = None
        \<and> \<not> sessionHealthy
             (snd (scrapeSection P B sec m
                ((onReport (onTotals (\<lambda>t. t\<lparr>sectionsVisited := sectionsVisited t + 1\<rparr>)) c)
                   \<lparr>world := snd (stagehandInit B (world c) sec)\<rparr>)))
        \<longrightarrow> sectionStatus (runReport (snd (runSection P B m sec c))) (sec_slug sec)
              = Some SessionFailed)
   \<and> scrapeSection P B sec m (c\<lparr>sessionHealthy := h, consecutiveSessionErrors := k\<rparr>)
       = scrapeSection P B sec m c"
proof -
  have a: "sessionHealthy (snd (attemptLoop P B sec u 1 c)) \<longrightarrow> sessionHealthy c"
    using attemptLoop_health [of P B sec u c] healthTracks_flag
    by (cases "attemptLoop P B sec u 1 c") auto
  have b: "sessionHealthy (postState (processPost P B sec s c)) \<longrightarrow> sessionHealthy c"
    using processPost_steps [of c P B sec s] healthTracks_flag by blast
  have c: "sessionHealthy (snd (postsLoop P B sec xs c)) \<longrightarrow> sessionHealthy c"
    using postsLoop_steps [of c P B sec xs] healthTracks_flag by blast
  have d: "sessionHealthy (pageState (pageIteration P B sec n cur c)) \<longrightarrow> sessionHealthy c"
    using pageIteration_steps [of c P B sec n cur] healthTracks_flag by blast
  have e: "sessionHealthy (snd (pageLoop P B sec m n nxt c)) \<longrightarrow> sessionHealthy c"
    using pageLoop_steps [of c P B sec m n nxt] healthTracks_flag by blast
  have f: "\<not> sessionHealthy c \<longrightarrow>
         postsLoop P B sec xs c = (None, c) \<and> pageLoop P B sec m n nxt c = (None, c)"
    by (simp add: unhealthy_postsLoop unhealthy_pageLoop)
  have g: "sectionStatus (runReport (snd (scrapeSection P B sec m c0))) (sec_slug sec)
             = Some SessionFailed"
    if "\<not> sessionHealthy (snd (scrapeSection P B sec m c0))" for c0 :: "'a crawl"
    using that scrapeSection_steps [of c0 P B sec m] by (simp add: healthTracks_def)
  have i: "sectionStatus (runReport (snd (runSection P B m sec c))) (sec_slug sec)
              = Some SessionFailed"
    if init: "fst (stagehandInit B (world c) sec) = None"
      and bad: "\<not> sessionHealthy
             (snd (scrapeSection P B sec m
                ((onReport (onTotals (\<lambda>t. t\<lparr>sectionsVisited := sectionsVisited t + 1\<rparr>)) c)
                   \<lparr>world := snd (stagehandInit B (world c) sec)\<rparr>)))"
  proof -
    define c1 where "c1 = (onReport (onTotals (\<lambda>t. t\<lparr>sectionsVisited := sectionsVisited t + 1\<rparr>)) c)
                   \<lparr>world := snd (stagehandInit B (world c) sec)\<rparr>"
    obtain r c2 where sc: "scrapeSection P B sec m c1 = (r, c2)"
      by (cases "scrapeSection P B sec m c1") auto
    with g [of c1] bad have st: "sectionStatus (runReport c2) (sec_slug sec) = Some SessionFailed"
      by (simp add: c1_def)
    then have "ifPending (sec_slug sec) x (runReport c2) = runReport c2" for x
      by (simp add: ifPending_def)
    with st init sc show ?thesis
      unfolding runSection_def Let_def
      by (cases "stagehandInit B (world c) sec"; cases r) (auto simp: c1_def)
  qed
  have j: "scrapeSection P B sec m (c\<lparr>sessionHealthy := h, consecutiveSessionErrors := k\<rparr>)
       = scrapeSection P B sec m c"
    by (simp add: scrapeSection_def)
  from a b c d e f g [of c] i j show ?thesis
    by blast
qed

text \<open>The crawl on a session that is lost from the start: the first listing fails.\<close>

lemma lostListing_crawl:
  "\<not> sessionHealthy
       (snd (scrapeSection blogPlatform (scripted [] lostListing) drDiet 2
               ((onReport (onTotals (\<lambda>t. t\<lparr>sectionsVisited := sectionsVisited t + 1\<rparr>))
                   (startOfRun []))
                  \<lparr>world := snd (stagehandInit (scripted [] lostListing) (world (startOfRun [])) drDiet)\<rparr>)))"
  by (simp add: lostListing_def crawl_unfold example_facts numeral_2_eq_2 onTotals_def)

theorem healthy_flag_monotonic_witness:
  "\<not> sessionHealthy (snd lostSessionCrawl)
   \<and> sectionStatus (runReport (snd lostSessionCrawl)) (sec_slug drDiet) = Some SessionFailed
   \<and> postsLoop blogPlatform (scripted [] threePosts) drDiet [summaryOf postA] (snd lostSessionCrawl)
       = (None, snd lostSessionCrawl)
   \<and> pageLoop blogPlatform (scripted [] threePosts) drDiet 2 2 (Some (baseUrl drDiet))
        (snd lostSessionCrawl)
       = (None, snd lostSessionCrawl)
   \<and> fst (stagehandInit (scripted [] lostListing) (world (startOfRun [])) drDiet) = None
   \<and> sectionStatus
        (runReport (snd (runSection blogPlatform (scripted [] lostListing) 2 drDiet (startOfRun []))))
        (sec_slug drDiet)
       = Some SessionFailed"
proof -
  have bad: "\<not> sessionHealthy (snd lostSessionCrawl)"
    by (rule lostSessionCrawl_facts)
  have init: "fst (stagehandInit (scripted [] lostListing) (world (startOfRun [])) drDiet) = None"
    by (simp add: example_backend)
  have crawl: "snd lostSessionCrawl
      = snd (scrapeSection blogPlatform (scripted [] threePosts) drDiet 2
               (startOfRun (replicate 9 (Inl sessionLost))))"
    by (simp add: lostSessionCrawl_def)
  show ?thesis
    using bad init lostListing_crawl
      healthy_flag_monotonic [where P = blogPlatform and B = "scripted [] threePosts"
        and sec = drDiet and u = postA and c = "snd lostSessionCrawl" and s = "summaryOf postA"
        and xs = "[summaryOf postA]" and n = 2 and cur = "baseUrl drDiet" and m = 2
        and nxt = "Some (baseUrl drDiet)" and h = True and k = 0]
      healthy_flag_monotonic [where P = blogPlatform and B = "scripted [] threePosts"
        and sec = drDiet and u = postA and c = "startOfRun (replicate 9 (Inl sessionLost))"
        and s = "summaryOf postA" and xs = "[summaryOf postA]" and n = 2
        and cur = "baseUrl drDiet" and m = 2 and nxt = "Some (baseUrl drDiet)" and h = True
        and k = 0]
      healthy_flag_monotonic [where P = blogPlatform and B = "scripted [] lostListing"
        and sec = drDiet and u = postA and c = "startOfRun []" and s = "summaryOf postA"
        and xs = "[summaryOf postA]" and n = 2 and cur = "baseUrl drDiet" and m = 2
        and nxt = "Some (baseUrl drDiet)" and h = True and k = 0]
    unfolding crawl by simp
qed

lemma dedupGrows_seen:
  assumes "dedupGrows c c'" and "u \<in> seenUrls c"
  shows "u \<in> seenUrls c'
         \<and> (\<forall>a out. ExtractPost u a out \<in> set (events c') \<longrightarrow> ExtractPost u a out \<in> set (events c))"
  using assms by (auto simp: dedupGrows_def; blast)

lemma dedupGrows_extracted:
  assumes "dedupGrows c c'" and "ExtractPost u a out \<in> set (events c')"
    and "ExtractPost u a out \<notin> set (events c)"
  shows "u \<in> seenUrls c' \<and> u \<notin> seenUrls c"
  using assms by (auto simp: dedupGrows_def; blast)

text \<open>
  C4.  Over the summaries of a page, the pages of a section, a section, and the sections
  of a run, the Dedup Set only grows, and every detail extraction is for a URL that was
  not in the set before: a URL in the set is never removed and never extracted again,
  on the same page, on a later page or in another section.  The set is the one state that
  \<open>main\<close> hands from section to section, and it starts as the URLs of the store: these are
  in the set at the end of the run, and none of them is ever extracted.
\<close>

theorem dedup_set_blocks_reextraction:
  "dedupGrows c (snd (postsLoop P B sec xs c))
   \<and> dedupGrows c (snd (pageLoop P B sec m n nxt c))
   \<and> dedupGrows c (snd (scrapeSection P B sec m c))
   \<and> dedupGrows c (snd (runSections P B m secs t c))
   \<and> (\<forall>urls w t' c'. getExistingPostUrls B w0 = (Inr urls, w) \<and> main P B m w0 = Inr (t', c')
        \<longrightarrow> set urls \<subseteq> seenUrls c'
            \<and> (\<forall>u\<in>set urls. \<forall>a out. ExtractPost u a out \<notin> set (events c')))"
proof -
  have "set urls \<subseteq> seenUrls c' \<and> (\<forall>u\<in>set urls. \<forall>a out. ExtractPost u a out \<notin> set (events c'))"
    if g: "getExistingPostUrls B w0 = (Inr urls, w)" and mn: "main P B m w0 = Inr (t', c')"
    for urls w t' c'
  proof -
    define c0 where "c0 = \<lparr>world = w, seenUrls = set urls, runReport = initialReport SECTIONS,
                   events = [], totalNew = 0, sessionHealthy = True,
                   consecutiveSessionErrors = 0, newThisPage = 0, invalidUrlCount = 0\<rparr>"
    obtain t1 c1 where rs: "runSections P B m SECTIONS 0 c0 = (t1, c1)"
      by (cases "runSections P B m SECTIONS 0 c0") auto
    from g mn rs have c': "c' = onReport (\<lambda>r. r\<lparr>status := Some RunComplete\<rparr>) c1"
      by (simp add: main_def c0_def)
    from runSections_dedup [of c0 P B m SECTIONS 0] rs have "dedupGrows c0 c1"
      by simp
    then show ?thesis
      unfolding dedupGrows_def c' by (auto simp: c0_def)
  qed
  then show ?thesis
    using postsLoop_steps [of c P B sec xs] pageLoop_steps [of c P B sec m n nxt]
      scrapeSection_steps [of c P B sec m] runSections_dedup [of c P B m secs t]
    by blast
qed

theorem dedup_set_blocks_reextraction_witness:
  "postA \<in> seenUrls ((startOfRun [Inr (detailOf postB)])\<lparr>seenUrls := {postA}\<rparr>)
   \<and> ExtractPost postB 1 Ok \<in> set (events (snd twoPageCrawl))
   \<and> postB \<notin> seenUrls ((startOfRun [Inr (detailOf postB)])\<lparr>seenUrls := {postA}\<rparr>)
   \<and> postA \<in> seenUrls (snd twoPageCrawl)
   \<and> postB \<in> seenUrls (snd twoPageCrawl)
   \<and> ExtractPost postA 1 Ok \<notin> set (events (snd twoPageCrawl))
   \<and> (case main blogPlatform (scripted [postA] twoPages) 2 [Inr (detailOf postB)] of
         Inl err \<Rightarrow> False
       | Inr (n, c) \<Rightarrow> postA \<in> seenUrls c \<and> ExtractPost postA 1 Ok \<notin> set (events c))"
proof -
  let ?c = "(startOfRun [Inr (detailOf postB)])\<lparr>seenUrls := {postA}\<rparr>
              :: (js_error + json) list crawl"
  have start: "postA \<in> seenUrls ?c" "postB \<notin> seenUrls ?c" "events ?c = []"
    by (simp_all add: startOfRun_def example_posts_distinct)
  have run: "ExtractPost postB 1 Ok \<in> set (events (snd twoPageCrawl))"
    by (rule twoPageCrawl_facts)
  have dg: "dedupGrows ?c (snd twoPageCrawl)"
    using dedup_set_blocks_reextraction [where c = ?c and P = blogPlatform
        and B = "scripted [] twoPages" and sec = drDiet and xs = "[]" and m = 2 and n = 1
        and nxt = None and secs = "[]" and t = 0 and ?w0.0 = "[]"]
    by (simp add: twoPageCrawl_def)
  have fresh: "ExtractPost u a out \<notin> set (events ?c)" for u a out
    using start(3) by simp
  from dedupGrows_seen [OF dg start(1)] fresh
  have grownA: "postA \<in> seenUrls (snd twoPageCrawl)"
    "ExtractPost postA 1 Ok \<notin> set (events (snd twoPageCrawl))"
    by blast+
  from dedupGrows_extracted [OF dg run fresh]
  have grownB: "postB \<in> seenUrls (snd twoPageCrawl)"
    by simp
  have "\<exists>n c. main blogPlatform (scripted [postA] twoPages) 2 [Inr (detailOf postB)] = Inr (n, c)"
    by (simp add: main_def example_backend split: prod.splits)
  then obtain n c where m: "main blogPlatform (scripted [postA] twoPages) 2 [Inr (detailOf postB)]
      = Inr (n, c)"
    by blast
  have store: "getExistingPostUrls (scripted [postA] twoPages) [Inr (detailOf postB)]
      = (Inr [postA], [Inr (detailOf postB)])"
    by (simp add: example_backend)
  from dedup_set_blocks_reextraction [where c = ?c and P = blogPlatform
        and B = "scripted [postA] twoPages" and sec = drDiet and xs = "[]" and m = 2 and n = 1
        and nxt = None and secs = "[]" and t = 0 and ?w0.0 = "[Inr (detailOf postB)]"] store m
  have "postA \<in> seenUrls c \<and> ExtractPost postA 1 Ok \<notin> set (events c)"
    by auto
  with start run grownA grownB m show ?thesis
    by simp
qed

text \<open>The crawl on the session that comes back for one post: one saved, two failures counted.\<close>

lemma recoveredCrawl_result:
  "\<exists>r. recoveredCrawl =
         (Inr 1,
          \<lparr>world = [], seenUrls = {postC, postB, postA}, runReport = r,
           events =
             [NewPage (baseUrl drDiet), Wait 3000, ExtractCategory (baseUrl drDiet) Ok,
              ExtractPost postA 1 SessionError, Backoff 1000,
              ExtractPost postA 2 SessionError, Backoff 2000,
              ExtractPost postA 3 SessionError,
              ExtractPost postB 1 Ok,
              Upsert \<lparr>pr_url = postB, pr_slug = js ''post-b'', pr_title = js ''Post'',
                      pr_datePublished = None, pr_doctorSection = js ''dr-diet'',
                      pr_categories = [], pr_tags = [], pr_markdown = []\<rparr>,
              WriteMarkdown (sec_slug drDiet)
                \<lparr>pd_slug = js ''post-b'', pd_title = js ''Post'', pd_url = postB,
                 pd_date = None, pd_doctorSection = js ''dr-diet'', pd_categories = Some [],
                 pd_tags = Some [], pd_markdown = []\<rparr>,
              ExtractPost postC 1 SessionError, Backoff 1000,
              ExtractPost postC 2 SessionError, Backoff 2000,
              ExtractPost postC 3 SessionError],
           totalNew = 1, sessionHealthy = True, consecutiveSessionErrors = 1,
           newThisPage = 1, invalidUrlCount = 0\<rparr>)
       \<and> sectionStatus r (sec_slug drDiet) = Some Pending
       \<and> sections r (sec_slug drDiet)
           = Some \<lparr>pagesVisited = 1, postsDiscovered = 3, postsSaved = 1, postsFailed = 2\<rparr>"
  by (simp add: recoveredCrawl_def threePosts_def crawl_unfold example_facts
      numeral_2_eq_2 numeral_3_eq_3 report_sections_at emptyStats_def normalizeDate_def)


lemma recoveredCrawl_facts:
  shows "events (snd recoveredCrawl) =
             [NewPage (baseUrl drDiet), Wait 3000, ExtractCategory (baseUrl drDiet) Ok,
              ExtractPost postA 1 SessionError, Backoff 1000,
              ExtractPost postA 2 SessionError, Backoff 2000,
              ExtractPost postA 3 SessionError,
              ExtractPost postB 1 Ok,
              Upsert \<lparr>pr_url = postB, pr_slug = js ''post-b'', pr_title = js ''Post'',
                      pr_datePublished = None, pr_doctorSection = js ''dr-diet'',
                      pr_categories = [], pr_tags = [], pr_markdown = []\<rparr>,
              WriteMarkdown (sec_slug drDiet)
                \<lparr>pd_slug = js ''post-b'', pd_title = js ''Post'', pd_url = postB,
                 pd_date = None, pd_doctorSection = js ''dr-diet'', pd_categories = Some [],
                 pd_tags = Some [], pd_markdown = []\<rparr>,
              ExtractPost postC 1 SessionError, Backoff 1000,
              ExtractPost postC 2 SessionError, Backoff 2000,
              ExtractPost postC 3 SessionError]"
    and "sessionHealthy (snd recoveredCrawl)"
    and "consecutiveSessionErrors (snd recoveredCrawl) = 1"
    and "sectionStatus (runReport (snd recoveredCrawl)) (sec_slug drDiet) = Some Pending"
proof -
  from recoveredCrawl_result obtain r where
    eq: "recoveredCrawl = (Inr 1, \<lparr>world = [], seenUrls = {postC, postB, postA}, runReport = r,
           events =
             [NewPage (baseUrl drDiet), Wait 3000, ExtractCategory (baseUrl drDiet) Ok,
              ExtractPost postA 1 SessionError, Backoff 1000,
              ExtractPost postA 2 SessionError, Backoff 2000,
              ExtractPost postA 3 SessionError,
              ExtractPost postB 1 Ok,
              Upsert \<lparr>pr_url = postB, pr_slug = js ''post-b'', pr_title = js ''Post'',
                      pr_datePublished = None, pr_doctorSection = js ''dr-diet'',
                      pr_categories = [], pr_tags = [], pr_markdown = []\<rparr>,
              WriteMarkdown (sec_slug drDiet)
                \<lparr>pd_slug = js ''post-b'', pd_title = js ''Post'', pd_url = postB,
                 pd_date = None, pd_doctorSection = js ''dr-diet'', pd_categories = Some [],
                 pd_tags = Some [], pd_markdown = []\<rparr>,
              ExtractPost postC 1 SessionError, Backoff 1000,
              ExtractPost postC 2 SessionError, Backoff 2000,
              ExtractPost postC 3 SessionError],
           totalNew = 1, sessionHealthy = True, consecutiveSessionErrors = 1,
           newThisPage = 1, invalidUrlCount = 0\<rparr>)"
    and r: "sectionStatus r (sec_slug drDiet) = Some Pending"
    by blast
  show "events (snd recoveredCrawl) =
             [NewPage (baseUrl drDiet), Wait 3000, ExtractCategory (baseUrl drDiet) Ok,
              ExtractPost postA 1 SessionError, Backoff 1000,
              ExtractPost postA 2 SessionError, Backoff 2000,
              ExtractPost postA 3 SessionError,
              ExtractPost postB 1 Ok,
              Upsert \<lparr>pr_url = postB, pr_slug = js ''post-b'', pr_title = js ''Post'',
                      pr_datePublished = None, pr_doctorSection = js ''dr-diet'',
                      pr_categories = [], pr_tags = [], pr_markdown = []\<rparr>,
              WriteMarkdown (sec_slug drDiet)
                \<lparr>pd_slug = js ''post-b'', pd_title = js ''Post'', pd_url = postB,
                 pd_date = None, pd_doctorSection = js ''dr-diet'', pd_categories = Some [],
                 pd_tags = Some [], pd_markdown = []\<rparr>,
              ExtractPost postC 1 SessionError, Backoff 1000,
              ExtractPost postC 2 SessionError, Backoff 2000,
              ExtractPost postC 3 SessionError]"
    and "sessionHealthy (snd recoveredCrawl)"
    and "consecutiveSessionErrors (snd recoveredCrawl) = 1"
    and "sectionStatus (runReport (snd recoveredCrawl)) (sec_slug drDiet) = Some Pending"
    using r unfolding eq by simp_all
qed

section \<open>The session health counter\<close>

text \<open>Without a success in between, the monitor counts the session failures.\<close>

lemma recordOutcome_count:
  "Success \<notin> set outs
   \<Longrightarrow> foldl recordOutcome k outs = k + length (filter (\<lambda>x. x = SessionFailure) outs)"
proof (induction outs arbitrary: k)
  case Nil
  then show ?case by simp
next
  case (Cons x outs)
  then show ?case by (cases x) simp_all
qed

lemma recordOutcome_since_success:
  assumes "Success \<notin> set rest"
  shows "foldl recordOutcome k (outs @ Success # rest)
           = length (filter (\<lambda>x. x = SessionFailure) rest)"
  using recordOutcome_count [OF assms, of 0] by simp

text \<open>
  C1.  In the retry loop of a URL the counter follows the monitor on the outcome of the
  URL: a session error on the final attempt adds one, a success resets it to zero, any
  other failure leaves it; the healthy flag falls exactly when such a session error
  brings the counter to the threshold, and the section is then marked as session-failed.
  Over the crawl of a section, which starts from counter 0 and flag up, the counter at the
  end is the monitor run from 0 over the outcomes of the URLs; a counter at the threshold
  means the flag is down and the section session-failed; three session failures without a
  success in between bring the flag down; and after a success the counter is the number
  of session failures since.
\<close>

theorem session_health_counter:
  "(\<forall>d c1. attemptLoop P B sec u 1 c = (d, c1) \<longrightarrow>
      (\<exists>k out. 1 \<le> k \<and> k \<le> maxAttempts
         \<and> events c1 = events c @ retried u 1 k @ [ExtractPost u k out]
         \<and> (out = SessionError \<longrightarrow>
               k = maxAttempts \<and> consecutiveSessionErrors c1 = consecutiveSessionErrors c + 1)
         \<and> (out = Ok \<longrightarrow> consecutiveSessionErrors c1 = 0)
         \<and> (out = OtherError \<longrightarrow> consecutiveSessionErrors c1 = consecutiveSessionErrors c)
         \<and> (sessionHealthy c1 \<longleftrightarrow>
               sessionHealthy c
               \<and> \<not> (out = SessionError
                      \<and> SESSION_ERROR_POST_THRESHOLD \<le> consecutiveSessionErrors c1))
         \<and> (out = SessionError \<and> SESSION_ERROR_POST_THRESHOLD \<le> consecutiveSessionErrors c1
              \<longrightarrow> sectionStatus (runReport c1) (sec_slug sec) = Some SessionFailed)))
   \<and> (\<exists>evs. events (snd (scrapeSection P B sec m c0)) = events c0 @ evs
         \<and> consecutiveSessionErrors (snd (scrapeSection P B sec m c0))
             = foldl recordOutcome 0 (urlOutcomes evs)
         \<and> (SESSION_ERROR_POST_THRESHOLD \<le> consecutiveSessionErrors (snd (scrapeSection P B sec m c0))
              \<longrightarrow> \<not> sessionHealthy (snd (scrapeSection P B sec m c0))
                  \<and> sectionStatus (runReport (snd (scrapeSection P B sec m c0))) (sec_slug sec)
                      = Some SessionFailed)
         \<and> (\<forall>outs rest. urlOutcomes evs = outs @ rest \<and> Success \<notin> set rest
                \<and> 3 \<le> length (filter (\<lambda>x. x = SessionFailure) rest)
              \<longrightarrow> \<not> sessionHealthy (snd (scrapeSection P B sec m c0)))
         \<and> (\<forall>outs rest. urlOutcomes evs = outs @ Success # rest \<and> Success \<notin> set rest
              \<longrightarrow> consecutiveSessionErrors (snd (scrapeSection P B sec m c0))
                    = length (filter (\<lambda>x. x = SessionFailure) rest)))"
proof -
  have url: "\<exists>k out. 1 \<le> k \<and> k \<le> maxAttempts
         \<and> events c1 = events c @ retried u 1 k @ [ExtractPost u k out]
         \<and> (out = SessionError \<longrightarrow>
               k = maxAttempts \<and> consecutiveSessionErrors c1 = consecutiveSessionErrors c + 1)
         \<and> (out = Ok \<longrightarrow> consecutiveSessionErrors c1 = 0)
         \<and> (out = OtherError \<longrightarrow> consecutiveSessionErrors c1 = consecutiveSessionErrors c)
         \<and> (sessionHealthy c1 \<longleftrightarrow>
               sessionHealthy c
               \<and> \<not> (out = SessionError
                      \<and> SESSION_ERROR_POST_THRESHOLD \<le> consecutiveSessionErrors c1))
         \<and> (out = SessionError \<and> SESSION_ERROR_POST_THRESHOLD \<le> consecutiveSessionErrors c1
              \<longrightarrow> sectionStatus (runReport c1) (sec_slug sec) = Some SessionFailed)"
    if run: "attemptLoop P B sec u 1 c = (d, c1)" for d c1
  proof -
    have one: "(1::nat) \<le> maxAttempts"
      by (simp add: maxAttempts_def)
    from attemptLoop_from [OF run one] obtain k out where k: "1 \<le> k" "k \<le> maxAttempts"
      and ev: "events c1 = events c @ retried u 1 k @ [ExtractPost u k out]"
      and last: "out = SessionError \<longrightarrow> k = maxAttempts"
      and cnt: "consecutiveSessionErrors c1
                  = recordOutcome (consecutiveSessionErrors c) (outcomeClass out)"
      and hl: "sessionHealthy c1 \<longleftrightarrow> sessionHealthy c
                 \<and> \<not> (out = SessionError
                        \<and> consecutiveSessionErrors c + 1 \<ge> SESSION_ERROR_POST_THRESHOLD)"
      and st: "out = SessionError \<and> consecutiveSessionErrors c + 1 \<ge> SESSION_ERROR_POST_THRESHOLD
                \<longrightarrow> sectionStatus (runReport c1)
                      = (sectionStatus (runReport c))(sec_slug sec \<mapsto> SessionFailed)"
      by blast
    have "out = SessionError \<longrightarrow>
               k = maxAttempts \<and> consecutiveSessionErrors c1 = consecutiveSessionErrors c + 1"
      using last cnt by simp
    moreover have "out = Ok \<longrightarrow> consecutiveSessionErrors c1 = 0"
      using cnt by simp
    moreover have "out = OtherError \<longrightarrow> consecutiveSessionErrors c1 = consecutiveSessionErrors c"
      using cnt by simp
    moreover have "sessionHealthy c1 \<longleftrightarrow>
               sessionHealthy c
               \<and> \<not> (out = SessionError
                      \<and> SESSION_ERROR_POST_THRESHOLD \<le> consecutiveSessionErrors c1)"
      using hl cnt by auto
    moreover have "out = SessionError \<and> SESSION_ERROR_POST_THRESHOLD \<le> consecutiveSessionErrors c1
              \<longrightarrow> sectionStatus (runReport c1) (sec_slug sec) = Some SessionFailed"
      using st cnt by auto
    ultimately show ?thesis
      using k ev by blast
  qed
  define c' where "c' = snd (scrapeSection P B sec m c0)"
  define s0 where "s0 = c0\<lparr>totalNew := 0, sessionHealthy := True, consecutiveSessionErrors := 0\<rparr>"
  have ht: "healthTracks sec s0 c'"
    using scrapeSection_steps [of c0 P B sec m] by (simp add: c'_def s0_def)
  then obtain evs where ev: "events c' = events c0 @ evs"
    and cnt: "consecutiveSessionErrors c' = foldl recordOutcome 0 (urlOutcomes evs)"
    unfolding healthTracks_def by (auto simp: s0_def)
  from ht have up: "sessionHealthy c' \<longrightarrow> isHealthy (consecutiveSessionErrors c')"
    unfolding healthTracks_def
    by (simp add: s0_def isHealthy_def SESSION_ERROR_POST_THRESHOLD_def)
  from ht have down: "\<not> sessionHealthy c'
      \<longrightarrow> sectionStatus (runReport c') (sec_slug sec) = Some SessionFailed"
    unfolding healthTracks_def by (simp add: s0_def)
  have thr: "SESSION_ERROR_POST_THRESHOLD \<le> consecutiveSessionErrors c'
              \<longrightarrow> \<not> sessionHealthy c'
                  \<and> sectionStatus (runReport c') (sec_slug sec) = Some SessionFailed"
    using up down by (auto simp: isHealthy_def)
  have three: "\<not> sessionHealthy c'"
    if "urlOutcomes evs = outs @ rest" "Success \<notin> set rest"
      "3 \<le> length (filter (\<lambda>x. x = SessionFailure) rest)" for outs rest
  proof -
    from that cnt have "consecutiveSessionErrors c'
        = foldl recordOutcome 0 outs + length (filter (\<lambda>x. x = SessionFailure) rest)"
      by (simp add: recordOutcome_count)
    with that(3) have "SESSION_ERROR_POST_THRESHOLD \<le> consecutiveSessionErrors c'"
      by (simp add: SESSION_ERROR_POST_THRESHOLD_def)
    with thr show ?thesis by simp
  qed
  have since: "consecutiveSessionErrors c' = length (filter (\<lambda>x. x = SessionFailure) rest)"
    if "urlOutcomes evs = outs @ Success # rest" "Success \<notin> set rest" for outs rest
    using that cnt recordOutcome_since_success [of rest 0 outs] by simp
  from url ev cnt thr three since show ?thesis
    unfolding c'_def by blast
qed


lemma example_outcomes:
  "urlOutcomes (events (snd lostSessionCrawl)) = [SessionFailure, SessionFailure, SessionFailure]"
  "urlOutcomes (events (snd recoveredCrawl)) = [SessionFailure, Success, SessionFailure]"
  by (simp_all add: lostSessionCrawl_facts recoveredCrawl_facts urlOutcomes_def
      List.map_filter_def maxAttempts_def)

theorem session_health_counter_witness:
  "\<not> sessionHealthy
       (snd (attemptLoop blogPlatform (scripted [] threePosts) drDiet postA 1
               ((startOfRun [Inl sessionLost, Inl sessionLost, Inl sessionLost])
                  \<lparr>consecutiveSessionErrors := 2\<rparr>)))
   \<and> consecutiveSessionErrors
       (snd (attemptLoop blogPlatform (scripted [] threePosts) drDiet postA 1
               ((startOfRun [Inl sessionLost, Inl sessionLost, Inl sessionLost])
                  \<lparr>consecutiveSessionErrors := 2\<rparr>))) = 3
   \<and> sectionStatus
       (runReport
          (snd (attemptLoop blogPlatform (scripted [] threePosts) drDiet postA 1
                  ((startOfRun [Inl sessionLost, Inl sessionLost, Inl sessionLost])
                     \<lparr>consecutiveSessionErrors := 2\<rparr>))))
       (sec_slug drDiet) = Some SessionFailed
   \<and> urlOutcomes (events (snd lostSessionCrawl)) = [] @ [SessionFailure, SessionFailure, SessionFailure]
   \<and> \<not> sessionHealthy (snd lostSessionCrawl)
   \<and> sectionStatus (runReport (snd lostSessionCrawl)) (sec_slug drDiet) = Some SessionFailed
   \<and> urlOutcomes (events (snd recoveredCrawl)) = [SessionFailure] @ Success # [SessionFailure]
   \<and> consecutiveSessionErrors (snd recoveredCrawl) = length [SessionFailure]
   \<and> sessionHealthy (snd recoveredCrawl)"
proof -
  let ?B = "scripted [] threePosts"
  let ?c = "(startOfRun [Inl sessionLost, Inl sessionLost, Inl sessionLost])
              \<lparr>consecutiveSessionErrors := 2\<rparr> :: (js_error + json) list crawl"
  let ?lost = "startOfRun (replicate 9 (Inl sessionLost)) :: (js_error + json) list crawl"
  let ?regained = "startOfRun [Inl sessionLost, Inl sessionLost, Inl sessionLost,
                 Inr (detailOf postB), Inl sessionLost, Inl sessionLost, Inl sessionLost]
               :: (js_error + json) list crawl"
  obtain d c1 where run: "attemptLoop blogPlatform ?B drDiet postA 1 ?c = (d, c1)"
    by (cases "attemptLoop blogPlatform ?B drDiet postA 1 ?c") auto
  then have ev: "events c1 = [ExtractPost postA 1 SessionError, Backoff 1000,
                    ExtractPost postA 2 SessionError, Backoff 2000,
                    ExtractPost postA 3 SessionError]"
    by (auto simp: crawl_unfold example_facts numeral_2_eq_2 numeral_3_eq_3)
  have start: "events ?c = []" "sessionHealthy ?c" "consecutiveSessionErrors ?c = 2"
    "events ?lost = []" "events ?regained = []"
    by (simp_all add: startOfRun_def)
  have crawls: "snd lostSessionCrawl = snd (scrapeSection blogPlatform ?B drDiet 2 ?lost)"
    "snd recoveredCrawl = snd (scrapeSection blogPlatform ?B drDiet 1 ?regained)"
    by (simp_all add: lostSessionCrawl_def recoveredCrawl_def)
  note lost = session_health_counter [where P = blogPlatform and B = "?B" and sec = drDiet
      and u = postA and c = "?c" and m = 2 and ?c0.0 = "?lost"]
  note again = session_health_counter [where P = blogPlatform and B = "?B" and sec = drDiet
      and u = postA and c = "?c" and m = 1 and ?c0.0 = "?regained"]
  from lost run obtain k out where
    ev': "events c1 = events ?c @ retried postA 1 k @ [ExtractPost postA k out]"
    and cnt: "out = SessionError \<longrightarrow> consecutiveSessionErrors c1 = consecutiveSessionErrors ?c + 1"
    and hl: "sessionHealthy c1 \<longleftrightarrow> sessionHealthy ?c
               \<and> \<not> (out = SessionError
                      \<and> SESSION_ERROR_POST_THRESHOLD \<le> consecutiveSessionErrors c1)"
    and st: "out = SessionError \<and> SESSION_ERROR_POST_THRESHOLD \<le> consecutiveSessionErrors c1
              \<longrightarrow> sectionStatus (runReport c1) (sec_slug drDiet) = Some SessionFailed"
    by blast
  from ev' have "last (events c1) = ExtractPost postA k out"
    by simp
  with ev have "out = SessionError"
    by simp
  with cnt hl st have a: "\<not> sessionHealthy c1" "consecutiveSessionErrors c1 = 3"
    "sectionStatus (runReport c1) (sec_slug drDiet) = Some SessionFailed"
    by (simp_all add: start SESSION_ERROR_POST_THRESHOLD_def)
  from lost obtain evs where e1: "events (snd lostSessionCrawl) = events ?lost @ evs"
    and t1: "\<forall>outs rest. urlOutcomes evs = outs @ rest \<and> Success \<notin> set rest
                \<and> 3 \<le> length (filter (\<lambda>x. x = SessionFailure) rest)
              \<longrightarrow> \<not> sessionHealthy (snd lostSessionCrawl)"
    and s1: "SESSION_ERROR_POST_THRESHOLD \<le> consecutiveSessionErrors (snd lostSessionCrawl)
              \<longrightarrow> \<not> sessionHealthy (snd lostSessionCrawl)
                  \<and> sectionStatus (runReport (snd lostSessionCrawl)) (sec_slug drDiet)
                      = Some SessionFailed"
    unfolding crawls [symmetric] by blast
  from e1 have "urlOutcomes evs = [] @ [SessionFailure, SessionFailure, SessionFailure]"
    using example_outcomes by (simp add: start)
  with t1 [rule_format, of "[]" "[SessionFailure, SessionFailure, SessionFailure]"]
  have b: "\<not> sessionHealthy (snd lostSessionCrawl)"
    by simp
  from s1 have b': "sectionStatus (runReport (snd lostSessionCrawl)) (sec_slug drDiet)
                      = Some SessionFailed"
    by (simp add: lostSessionCrawl_facts SESSION_ERROR_POST_THRESHOLD_def)
  from again obtain evs2 where e2: "events (snd recoveredCrawl) = events ?regained @ evs2"
    and t2: "\<forall>outs rest. urlOutcomes evs2 = outs @ Success # rest \<and> Success \<notin> set rest
              \<longrightarrow> consecutiveSessionErrors (snd recoveredCrawl)
                    = length (filter (\<lambda>x. x = SessionFailure) rest)"
    unfolding crawls [symmetric] by blast
  from e2 have "urlOutcomes evs2 = [SessionFailure] @ Success # [SessionFailure]"
    using example_outcomes by (simp add: start)
  with t2 [rule_format, of "[SessionFailure]" "[SessionFailure]"]
  have c: "consecutiveSessionErrors (snd recoveredCrawl)
                     = length (filter (\<lambda>x. x = SessionFailure) [SessionFailure])"
    by simp
  from a b b' c show ?thesis
    using run example_outcomes recoveredCrawl_facts(2) by simp
qed

section \<open>The retry policy\<close>

text \<open>What the body of the loop over the summaries does with a new, valid URL.\<close>

lemma processPost_new_url:
  assumes "sessionHealthy c" and "isValidPostUrl (Some (ps_url s))"
    and "normalizePostUrl P (ps_url s) (baseUrl sec) \<notin> seenUrls c"
    and "attemptLoop P B sec (normalizePostUrl P (ps_url s) (baseUrl sec)) 1
           (c\<lparr>seenUrls := insert (normalizePostUrl P (ps_url s) (baseUrl sec)) (seenUrls c)\<rparr>)
         = (d, c1)"
  shows "processPost P B sec s c =
      (if \<not> sessionHealthy c1 then BreakPosts c1
       else (case d of
               None \<Rightarrow> ContinuePosts (onReport (countFailed (sec_slug sec)) c1)
             | Some x \<Rightarrow> savePost P B sec x c1))"
  using assms by (simp add: processPost_def Let_def)

text \<open>
  C3.  For a new, valid URL met while the session is healthy, the retry loop makes between
  one and \<open>maxAttempts\<close> = 3 extractions: the attempts before the last all fail with a
  session error and each is followed by a wait of its number times 1000 ms.  A session
  error as the last outcome is on the final attempt and adds one to the counter, and when
  the counter is then at the threshold the flag is down, the loop over the summaries
  returns at once, skipping the remaining summaries, and the loop over the pages visits no
  further page.  Any other error ends the attempts at once, whatever its number: the URL
  is counted as a failed detail, in the section and in the totals, and the loop goes on
  with the next summary.
\<close>

theorem retry_loop_policy:
  assumes "sessionHealthy c" and "isValidPostUrl (Some (ps_url s))"
    and "u = normalizePostUrl P (ps_url s) (baseUrl sec)" and "u \<notin> seenUrls c"
  shows "\<exists>k out d c1.
      attemptLoop P B sec u 1 (c\<lparr>seenUrls := insert u (seenUrls c)\<rparr>) = (d, c1)
    \<and> 1 \<le> k \<and> k \<le> maxAttempts
    \<and> events c1 = events c @ retried u 1 k @ [ExtractPost u k out]
    \<and> (out = SessionError \<longrightarrow>
          k = maxAttempts
        \<and> consecutiveSessionErrors c1 = consecutiveSessionErrors c + 1)
    \<and> (out = SessionError \<and> consecutiveSessionErrors c1 \<ge> SESSION_ERROR_POST_THRESHOLD \<longrightarrow>
          \<not> sessionHealthy c1
        \<and> postsLoop P B sec (s # rest) c = (None, c1)
        \<and> (\<forall>m n nxt x. pageLoop P B sec m n nxt (c1\<lparr>totalNew := x\<rparr>) = (None, c1\<lparr>totalNew := x\<rparr>)))
    \<and> (out = OtherError \<longrightarrow>
          postsLoop P B sec (s # rest) c
            = postsLoop P B sec rest (onReport (countFailed (sec_slug sec)) c1)
        \<and> events (onReport (countFailed (sec_slug sec)) c1) = events c1
        \<and> totalPostsFailed (totals (runReport (onReport (countFailed (sec_slug sec)) c1)))
            = totalPostsFailed (totals (runReport c1)) + 1
        \<and> map_option postsFailed
             (sections (runReport (onReport (countFailed (sec_slug sec)) c1)) (sec_slug sec))
            = map_option (\<lambda>st. postsFailed st + 1) (sections (runReport c1) (sec_slug sec)))"
proof -
  define c0 where "c0 = c\<lparr>seenUrls := insert u (seenUrls c)\<rparr>"
  obtain d c1 where run: "attemptLoop P B sec u 1 c0 = (d, c1)"
    by (cases "attemptLoop P B sec u 1 c0") auto
  have one: "(1::nat) \<le> maxAttempts"
    by (simp add: maxAttempts_def)
  from attemptLoop_from [OF run one] obtain k out where k: "1 \<le> k" "k \<le> maxAttempts"
    and ev: "events c1 = events c0 @ retried u 1 k @ [ExtractPost u k out]"
    and last: "out = SessionError \<longrightarrow> k = maxAttempts"
    and det: "d \<noteq> None \<longleftrightarrow> out = Ok"
    and cnt: "consecutiveSessionErrors c1
                = recordOutcome (consecutiveSessionErrors c0) (outcomeClass out)"
    and hl: "sessionHealthy c1 \<longleftrightarrow> sessionHealthy c0
               \<and> \<not> (out = SessionError
                      \<and> consecutiveSessionErrors c0 + 1 \<ge> SESSION_ERROR_POST_THRESHOLD)"
    by blast
  have pp: "processPost P B sec s c =
      (if \<not> sessionHealthy c1 then BreakPosts c1
       else (case d of
               None \<Rightarrow> ContinuePosts (onReport (countFailed (sec_slug sec)) c1)
             | Some x \<Rightarrow> savePost P B sec x c1))"
    using assms run by (intro processPost_new_url) (simp_all add: c0_def)
  have sess: "k = maxAttempts \<and> consecutiveSessionErrors c1 = consecutiveSessionErrors c + 1"
    if "out = SessionError"
    using that last cnt by (simp add: c0_def)
  have abort: "\<not> sessionHealthy c1 \<and> postsLoop P B sec (s # rest) c = (None, c1)
        \<and> (\<forall>m n nxt x. pageLoop P B sec m n nxt (c1\<lparr>totalNew := x\<rparr>) = (None, c1\<lparr>totalNew := x\<rparr>))"
    if "out = SessionError" "consecutiveSessionErrors c1 \<ge> SESSION_ERROR_POST_THRESHOLD"
  proof -
    from that cnt hl have bad: "\<not> sessionHealthy c1"
      by (simp add: c0_def)
    with pp have "postsLoop P B sec (s # rest) c = (None, c1)"
      by simp
    moreover from bad have "pageLoop P B sec m n nxt (c1\<lparr>totalNew := x\<rparr>) = (None, c1\<lparr>totalNew := x\<rparr>)"
      for m n nxt x
      by (intro unhealthy_pageLoop) simp
    ultimately show ?thesis
      using bad by blast
  qed
  have other: "postsLoop P B sec (s # rest) c
            = postsLoop P B sec rest (onReport (countFailed (sec_slug sec)) c1)
        \<and> events (onReport (countFailed (sec_slug sec)) c1) = events c1
        \<and> totalPostsFailed (totals (runReport (onReport (countFailed (sec_slug sec)) c1)))
            = totalPostsFailed (totals (runReport c1)) + 1
        \<and> map_option postsFailed
             (sections (runReport (onReport (countFailed (sec_slug sec)) c1)) (sec_slug sec))
            = map_option (\<lambda>st. postsFailed st + 1) (sections (runReport c1) (sec_slug sec))"
    if "out = OtherError"
  proof -
    from that hl assms(1) have "sessionHealthy c1"
      by (simp add: c0_def)
    moreover from that det have "d = None"
      by simp
    ultimately have "postsLoop P B sec (s # rest) c
            = postsLoop P B sec rest (onReport (countFailed (sec_slug sec)) c1)"
      using pp by simp
    then show ?thesis
      by (simp add: report_sections_at option.map_comp comp_def)
  qed
  from ev have ev': "events c1 = events c @ retried u 1 k @ [ExtractPost u k out]"
    by (simp add: c0_def)
  show ?thesis
    using run k ev' sess abort other unfolding c0_def by blast
qed

lemma last_attempt:
  assumes "evs = retried u 1 k @ [ExtractPost u k out]" and "last evs = ExtractPost u' k' out'"
  shows "k = k' \<and> out = out'"
  using assms by simp

theorem retry_loop_policy_witness:
  "sessionHealthy (startOfRun [Inl sessionLost, Inl badResponse] :: (js_error + json) list crawl)
   \<and> isValidPostUrl (Some (ps_url (summaryOf postA)))
   \<and> postA = normalizePostUrl blogPlatform (ps_url (summaryOf postA)) (baseUrl drDiet)
   \<and> postA \<notin> seenUrls (startOfRun [Inl sessionLost, Inl badResponse] :: (js_error + json) list crawl)
   \<and> events (snd (attemptLoop blogPlatform (scripted [] threePosts) drDiet postA 1
                ((startOfRun [Inl sessionLost, Inl badResponse])
                   \<lparr>seenUrls := {postA}\<rparr>)))
       = [ExtractPost postA 1 SessionError, Backoff 1000, ExtractPost postA 2 OtherError]
   \<and> postsLoop blogPlatform (scripted [] threePosts) drDiet [summaryOf postA, summaryOf postB]
        (startOfRun [Inl sessionLost, Inl badResponse])
       = postsLoop blogPlatform (scripted [] threePosts) drDiet [summaryOf postB]
           (onReport (countFailed (sec_slug drDiet))
              (snd (attemptLoop blogPlatform (scripted [] threePosts) drDiet postA 1
                ((startOfRun [Inl sessionLost, Inl badResponse])
                   \<lparr>seenUrls := {postA}\<rparr>))))
   \<and> events (snd (attemptLoop blogPlatform (scripted [] threePosts) drDiet postA 1
                ((startOfRun [Inl sessionLost, Inl sessionLost, Inl sessionLost])
                   \<lparr>consecutiveSessionErrors := 2, seenUrls := {postA}\<rparr>)))
       = [ExtractPost postA 1 SessionError, Backoff 1000,
          ExtractPost postA 2 SessionError, Backoff 2000,
          ExtractPost postA 3 SessionError]
   \<and> postsLoop blogPlatform (scripted [] threePosts) drDiet [summaryOf postA, summaryOf postB]
        ((startOfRun [Inl sessionLost, Inl sessionLost, Inl sessionLost])
           \<lparr>consecutiveSessionErrors := 2\<rparr>)
       = (None, snd (attemptLoop blogPlatform (scripted [] threePosts) drDiet postA 1
                ((startOfRun [Inl sessionLost, Inl sessionLost, Inl sessionLost])
                   \<lparr>consecutiveSessionErrors := 2, seenUrls := {postA}\<rparr>)))"
proof -
  let ?B = "scripted [] threePosts"
  let ?c = "startOfRun [Inl sessionLost, Inl badResponse] :: (js_error + json) list crawl"
  let ?e = "(startOfRun [Inl sessionLost, Inl sessionLost, Inl sessionLost])
              \<lparr>consecutiveSessionErrors := 2\<rparr> :: (js_error + json) list crawl"
  have start: "sessionHealthy ?c" "isValidPostUrl (Some (ps_url (summaryOf postA)))"
    "postA = normalizePostUrl blogPlatform (ps_url (summaryOf postA)) (baseUrl drDiet)"
    "postA \<notin> seenUrls ?c" "events ?c = []"
    "sessionHealthy ?e" "postA \<notin> seenUrls ?e" "events ?e = []" "consecutiveSessionErrors ?e = 2"
    "?e\<lparr>seenUrls := insert postA (seenUrls ?e)\<rparr>
       = (startOfRun [Inl sessionLost, Inl sessionLost, Inl sessionLost])
                   \<lparr>consecutiveSessionErrors := 2, seenUrls := {postA}\<rparr>"
    "?c\<lparr>seenUrls := insert postA (seenUrls ?c)\<rparr>
       = (startOfRun [Inl sessionLost, Inl badResponse])\<lparr>seenUrls := {postA}\<rparr>"
    by (simp_all add: startOfRun_def summaryOf_def example_posts_valid)
  have ev1: "events (snd (attemptLoop blogPlatform ?B drDiet postA 1
                (?c\<lparr>seenUrls := insert postA (seenUrls ?c)\<rparr>)))
       = [ExtractPost postA 1 SessionError, Backoff 1000, ExtractPost postA 2 OtherError]"
    by (simp add: crawl_unfold example_facts numeral_2_eq_2 numeral_3_eq_3)
  have ev2: "events (snd (attemptLoop blogPlatform ?B drDiet postA 1
                (?e\<lparr>seenUrls := insert postA (seenUrls ?e)\<rparr>)))
       = [ExtractPost postA 1 SessionError, Backoff 1000,
          ExtractPost postA 2 SessionError, Backoff 2000,
          ExtractPost postA 3 SessionError]"
    by (simp add: crawl_unfold example_facts numeral_2_eq_2 numeral_3_eq_3)
  from retry_loop_policy [where c = ?c and s = "summaryOf postA" and u = postA
      and P = blogPlatform and sec = drDiet and B = ?B and rest = "[summaryOf postB]",
      OF start(1-4)]
  obtain k out d c1 where
    run: "attemptLoop blogPlatform ?B drDiet postA 1
            (?c\<lparr>seenUrls := insert postA (seenUrls ?c)\<rparr>) = (d, c1)"
    and ev: "events c1 = events ?c @ retried postA 1 k @ [ExtractPost postA k out]"
    and other: "out = OtherError \<longrightarrow>
          postsLoop blogPlatform ?B drDiet [summaryOf postA, summaryOf postB] ?c
            = postsLoop blogPlatform ?B drDiet [summaryOf postB]
                (onReport (countFailed (sec_slug drDiet)) c1)"
    by (elim exE conjE) (rule that, assumption, assumption, (rule impI, simp)+)
  from ev have "events c1 = retried postA 1 k @ [ExtractPost postA k out]"
    by (simp only: start(5) append_Nil)
  moreover have "c1 = snd (attemptLoop blogPlatform ?B drDiet postA 1
                             (?c\<lparr>seenUrls := insert postA (seenUrls ?c)\<rparr>))"
    by (simp only: run snd_conv)
  with ev1 have "last (events c1) = ExtractPost postA 2 OtherError"
    by simp
  ultimately have "out = OtherError"
    using last_attempt by blast
  with other run have a: "postsLoop blogPlatform ?B drDiet [summaryOf postA, summaryOf postB] ?c
       = postsLoop blogPlatform ?B drDiet [summaryOf postB]
           (onReport (countFailed (sec_slug drDiet))
              (snd (attemptLoop blogPlatform ?B drDiet postA 1
                      (?c\<lparr>seenUrls := insert postA (seenUrls ?c)\<rparr>))))"
    by simp
  from retry_loop_policy [where c = ?e and s = "summaryOf postA" and u = postA
      and P = blogPlatform and sec = drDiet and B = ?B and rest = "[summaryOf postB]",
      OF start(6) start(2) start(3) start(7)]
  obtain k2 out2 d2 c2 where
    run2: "attemptLoop blogPlatform ?B drDiet postA 1
            (?e\<lparr>seenUrls := insert postA (seenUrls ?e)\<rparr>) = (d2, c2)"
    and ev': "events c2 = events ?e @ retried postA 1 k2 @ [ExtractPost postA k2 out2]"
    and cnt: "out2 = SessionError \<longrightarrow>
                consecutiveSessionErrors c2 = consecutiveSessionErrors ?e + 1"
    and abort: "out2 = SessionError \<and> SESSION_ERROR_POST_THRESHOLD \<le> consecutiveSessionErrors c2
          \<longrightarrow> postsLoop blogPlatform ?B drDiet [summaryOf postA, summaryOf postB] ?e = (None, c2)"
    by (elim exE conjE) (rule that, assumption, assumption, (rule impI, simp)+)
  from ev' have "events c2 = retried postA 1 k2 @ [ExtractPost postA k2 out2]"
    by (simp only: start(8) append_Nil)
  moreover have "c2 = snd (attemptLoop blogPlatform ?B drDiet postA 1
                             (?e\<lparr>seenUrls := insert postA (seenUrls ?e)\<rparr>))"
    by (simp only: run2 snd_conv)
  with ev2 have "last (events c2) = ExtractPost postA 3 SessionError"
    by simp
  ultimately have "out2 = SessionError"
    using last_attempt by blast
  with cnt abort run2 have b: "postsLoop blogPlatform ?B drDiet [summaryOf postA, summaryOf postB] ?e
       = (None, snd (attemptLoop blogPlatform ?B drDiet postA 1
                      (?e\<lparr>seenUrls := insert postA (seenUrls ?e)\<rparr>)))"
    by (simp add: start(9) SESSION_ERROR_POST_THRESHOLD_def)
  show ?thesis
    using start(1-4) ev1 a ev2 b unfolding start(10,11) by (intro conjI) assumption+
qed

section \<open>A URL whose attempts all fail\<close>

lemma dedupGrows_notExtractedAgain:
  assumes "dedupGrows c c'" and "u \<in> seenUrls c"
  shows "notExtractedAgain u c c'"
proof -
  from assms(1) obtain evs where ev: "events c' = events c @ evs"
    and new: "\<forall>u a out. ExtractPost u a out \<in> set evs \<longrightarrow> u \<notin> seenUrls c \<and> u \<in> seenUrls c'"
    and sub: "seenUrls c \<subseteq> seenUrls c'"
    unfolding dedupGrows_def by blast
  from new assms(2) have "\<forall>a out. ExtractPost u a out \<notin> set evs"
    by blast
  with ev sub assms(2) show ?thesis
    unfolding notExtractedAgain_def by blast
qed

text \<open>
  C10 (as amended).  For a new, valid URL met while the session is healthy, the normalized URL
  is put into the Dedup Set before the first attempt: the retry loop runs on the set that
  holds it.  When all the attempts fail, the URL is in the set after the summary, no event
  of the sink has been added (the events of the summary are the attempts and their waits),
  and the URL is counted as a failed detail when the session is still healthy after the
  attempts; when the last session error has brought the flag down, the loop is left before
  the count.  And a URL that is in the Dedup Set stays in it and is not extracted over
  the rest of the summaries, the later pages, a later section and the later sections of
  the run.
\<close>

theorem failed_url_stays_seen:
  assumes "sessionHealthy c" and "isValidPostUrl (Some (ps_url s))"
    and "u = normalizePostUrl P (ps_url s) (baseUrl sec)" and "u \<notin> seenUrls c"
  shows "(\<exists>k out d c1.
      attemptLoop P B sec u 1 (c\<lparr>seenUrls := insert u (seenUrls c)\<rparr>) = (d, c1)
    \<and> events c1 = events c @ retried u 1 k @ [ExtractPost u k out]
    \<and> seenUrls c1 = insert u (seenUrls c)
    \<and> (out \<noteq> Ok \<longrightarrow>
          d = None
        \<and> u \<in> seenUrls (postState (processPost P B sec s c))
        \<and> events (postState (processPost P B sec s c)) = events c1
        \<and> (sessionHealthy c1 \<longrightarrow>
              processPost P B sec s c
                = ContinuePosts (onReport (countFailed (sec_slug sec)) c1))
        \<and> (\<not> sessionHealthy c1 \<longrightarrow> processPost P B sec s c = BreakPosts c1)))
    \<and> (u \<in> seenUrls c2 \<longrightarrow>
          notExtractedAgain u c2 (snd (postsLoop P' B' sec' xs c2))
        \<and> notExtractedAgain u c2 (snd (pageLoop P' B' sec' m n nxt c2))
        \<and> notExtractedAgain u c2 (snd (scrapeSection P' B' sec' m c2))
        \<and> notExtractedAgain u c2 (snd (runSections P' B' m secs t c2)))"
proof -
  define c0 where "c0 = c\<lparr>seenUrls := insert u (seenUrls c)\<rparr>"
  obtain d c1 where run: "attemptLoop P B sec u 1 c0 = (d, c1)"
    by (cases "attemptLoop P B sec u 1 c0") auto
  have one: "(1::nat) \<le> maxAttempts"
    by (simp add: maxAttempts_def)
  from attemptLoop_from [OF run one] obtain k out where
    ev: "events c1 = events c0 @ retried u 1 k @ [ExtractPost u k out]"
    and det: "d \<noteq> None \<longleftrightarrow> out = Ok"
    and seen: "seenUrls c1 = seenUrls c0"
    by blast
  have pp: "processPost P B sec s c =
      (if \<not> sessionHealthy c1 then BreakPosts c1
       else (case d of
               None \<Rightarrow> ContinuePosts (onReport (countFailed (sec_slug sec)) c1)
             | Some x \<Rightarrow> savePost P B sec x c1))"
    using assms run by (intro processPost_new_url) (simp_all add: c0_def)
  have failed: "d = None
        \<and> u \<in> seenUrls (postState (processPost P B sec s c))
        \<and> events (postState (processPost P B sec s c)) = events c1
        \<and> (sessionHealthy c1 \<longrightarrow>
              processPost P B sec s c
                = ContinuePosts (onReport (countFailed (sec_slug sec)) c1))
        \<and> (\<not> sessionHealthy c1 \<longrightarrow> processPost P B sec s c = BreakPosts c1)"
    if "out \<noteq> Ok"
  proof -
    from that det have "d = None"
      by simp
    with pp seen show ?thesis
      by (simp add: c0_def)
  qed
  have later: "notExtractedAgain u c2 (snd (postsLoop P' B' sec' xs c2))
        \<and> notExtractedAgain u c2 (snd (pageLoop P' B' sec' m n nxt c2))
        \<and> notExtractedAgain u c2 (snd (scrapeSection P' B' sec' m c2))
        \<and> notExtractedAgain u c2 (snd (runSections P' B' m secs t c2))"
    if "u \<in> seenUrls c2"
    using that postsLoop_steps [of c2 P' B' sec' xs] pageLoop_steps [of c2 P' B' sec' m n nxt]
      scrapeSection_steps [of c2 P' B' sec' m] runSections_dedup [of c2 P' B' m secs t]
    by (simp add: dedupGrows_notExtractedAgain)
  from ev seen have "events c1 = events c @ retried u 1 k @ [ExtractPost u k out]"
    "seenUrls c1 = insert u (seenUrls c)"
    by (simp_all add: c0_def)
  with run failed later show ?thesis
    unfolding c0_def by blast
qed


text \<open>One attempt that fails with an error of another kind: the URL is given up at once.\<close>

lemma badResponse_attempt:
  "attemptLoop blogPlatform (scripted [] threePosts) drDiet postA 1
     ((startOfRun [Inl badResponse])\<lparr>seenUrls := {postA}\<rparr>)
   = (None,
      onReport (countError (js ''SyntaxError''))
        ((startOfRun [])\<lparr>seenUrls := {postA}, events := [ExtractPost postA 1 OtherError]\<rparr>))"
  by (simp add: crawl_unfold example_facts numeral_2_eq_2 numeral_3_eq_3)

theorem failed_url_stays_seen_witness:
  "sessionHealthy (startOfRun [Inl badResponse] :: (js_error + json) list crawl)
   \<and> isValidPostUrl (Some (ps_url (summaryOf postA)))
   \<and> postA = normalizePostUrl blogPlatform (ps_url (summaryOf postA)) (baseUrl drDiet)
   \<and> postA \<notin> seenUrls (startOfRun [Inl badResponse] :: (js_error + json) list crawl)
   \<and> events (postState (processPost blogPlatform (scripted [] threePosts) drDiet
                 (summaryOf postA) (startOfRun [Inl badResponse])))
       = [ExtractPost postA 1 OtherError]
   \<and> postA \<in> seenUrls (postState (processPost blogPlatform (scripted [] threePosts) drDiet
                 (summaryOf postA) (startOfRun [Inl badResponse])))
   \<and> processPost blogPlatform (scripted [] threePosts) drDiet (summaryOf postA)
        (startOfRun [Inl badResponse])
       = ContinuePosts
           (onReport (countFailed (sec_slug drDiet))
              (onReport (countError (js ''SyntaxError''))
                 ((startOfRun [])\<lparr>seenUrls := {postA},
                    events := [ExtractPost postA 1 OtherError]\<rparr>)))
   \<and> postA \<in> seenUrls (snd lostSessionCrawl)
   \<and> notExtractedAgain postA (snd lostSessionCrawl)
        (snd (scrapeSection blogPlatform (scripted [] threePosts) drDiet 2 (snd lostSessionCrawl)))
   \<and> notExtractedAgain postA (snd lostSessionCrawl)
        (snd (runSections blogPlatform (scripted [] threePosts) 2 SECTIONS 0 (snd lostSessionCrawl)))"
proof -
  let ?B = "scripted [] threePosts"
  let ?c = "startOfRun [Inl badResponse] :: (js_error + json) list crawl"
  let ?c1 = "onReport (countError (js ''SyntaxError''))
        ((startOfRun [])\<lparr>seenUrls := {postA}, events := [ExtractPost postA 1 OtherError]\<rparr>)
        :: (js_error + json) list crawl"
  have start: "sessionHealthy ?c" "isValidPostUrl (Some (ps_url (summaryOf postA)))"
    "postA = normalizePostUrl blogPlatform (ps_url (summaryOf postA)) (baseUrl drDiet)"
    "postA \<notin> seenUrls ?c"
    by (simp_all add: startOfRun_def summaryOf_def example_posts_valid)
  have init: "events ?c = []" "?c\<lparr>seenUrls := insert postA (seenUrls ?c)\<rparr>
                 = (startOfRun [Inl badResponse])\<lparr>seenUrls := {postA}\<rparr>"
    "sessionHealthy ?c1" "events ?c1 = [ExtractPost postA 1 OtherError]"
    by (simp_all add: startOfRun_def onReport_def)
  have seen: "postA \<in> seenUrls (snd lostSessionCrawl)"
    by (simp add: lostSessionCrawl_facts)
  note inst = failed_url_stays_seen [where c = ?c and s = "summaryOf postA" and u = postA
      and P = blogPlatform and sec = drDiet and B = ?B and ?c2.0 = "snd lostSessionCrawl"
      and P' = blogPlatform and B' = ?B and sec' = drDiet and xs = "[]" and m = 2 and n = 1
      and nxt = None and secs = SECTIONS and t = 0, OF start]
  from inst obtain k out d c1 where
    run: "attemptLoop blogPlatform ?B drDiet postA 1
            (?c\<lparr>seenUrls := insert postA (seenUrls ?c)\<rparr>) = (d, c1)"
    and ev: "events c1 = events ?c @ retried postA 1 k @ [ExtractPost postA k out]"
    and failed: "out \<noteq> Ok \<longrightarrow>
          postA \<in> seenUrls (postState (processPost blogPlatform ?B drDiet (summaryOf postA) ?c))
        \<and> events (postState (processPost blogPlatform ?B drDiet (summaryOf postA) ?c)) = events c1
        \<and> (sessionHealthy c1 \<longrightarrow>
              processPost blogPlatform ?B drDiet (summaryOf postA) ?c
                = ContinuePosts (onReport (countFailed (sec_slug drDiet)) c1))"
    by (elim exE conjE) (rule that, assumption, assumption, (rule impI, simp)+)
  from run have c1: "c1 = ?c1"
    by (simp only: init(2) badResponse_attempt prod.inject)
  from ev have "events c1 = retried postA 1 k @ [ExtractPost postA k out]"
    by (simp only: init(1) append_Nil)
  then have "last (events c1) = ExtractPost postA k out"
    by simp
  then have "out = OtherError"
    by (simp add: c1 init(4))
  with failed have a:
    "postA \<in> seenUrls (postState (processPost blogPlatform ?B drDiet (summaryOf postA) ?c))"
    "events (postState (processPost blogPlatform ?B drDiet (summaryOf postA) ?c))
       = [ExtractPost postA 1 OtherError]"
    "processPost blogPlatform ?B drDiet (summaryOf postA) ?c
       = ContinuePosts (onReport (countFailed (sec_slug drDiet)) ?c1)"
    unfolding c1 by (simp_all add: init(3,4) startOfRun_def)
  from inst seen have b:
    "notExtractedAgain postA (snd lostSessionCrawl)
        (snd (scrapeSection blogPlatform ?B drDiet 2 (snd lostSessionCrawl)))"
    "notExtractedAgain postA (snd lostSessionCrawl)
        (snd (runSections blogPlatform ?B 2 SECTIONS 0 (snd lostSessionCrawl)))"
    by blast+
  show ?thesis
    using start a seen b by (intro conjI) assumption+
qed

text \<open>
  C10 as stated fails.  On the lost session the three URLs exhaust their attempts and all
  three are in the Dedup Set, and two failed details are counted: the third session
  failure brings the flag down and the loop is left before the count.
\<close>

theorem failed_url_count_counterexample:
  "events (snd lostSessionCrawl) =
             [NewPage (baseUrl drDiet), Wait 3000, ExtractCategory (baseUrl drDiet) Ok,
              ExtractPost postA 1 SessionError, Backoff 1000,
              ExtractPost postA 2 SessionError, Backoff 2000,
              ExtractPost postA 3 SessionError,
              ExtractPost postB 1 SessionError, Backoff 1000,
              ExtractPost postB 2 SessionError, Backoff 2000,
              ExtractPost postB 3 SessionError,
              ExtractPost postC 1 SessionError, Backoff 1000,
              ExtractPost postC 2 SessionError, Backoff 2000,
              ExtractPost postC 3 SessionError]
   \<and> urlOutcomes (events (snd lostSessionCrawl))
       = [SessionFailure, SessionFailure, SessionFailure]
   \<and> seenUrls (snd lostSessionCrawl) = {postC, postB, postA}
   \<and> map_option postsFailed (sections (initialReport SECTIONS) (sec_slug drDiet)) = Some 0
   \<and> totalPostsFailed (totals (initialReport SECTIONS)) = 0
   \<and> map_option postsFailed (sections (runReport (snd lostSessionCrawl)) (sec_slug drDiet))
       = Some 2
   \<and> totalPostsFailed (totals (runReport (snd lostSessionCrawl))) = 2"
  using lostSessionCrawl_facts example_outcomes(1)
  by (simp add: example_report emptyStats_def)

section \<open>The Run Report is not read\<close>

lemma sameEntries_fields:
  assumes "sameEntries S c d"
  shows "world c = world d" "seenUrls c = seenUrls d" "events c = events d"
    "totalNew c = totalNew d" "sessionHealthy c = sessionHealthy d"
    "consecutiveSessionErrors c = consecutiveSessionErrors d"
    "newThisPage c = newThisPage d" "invalidUrlCount c = invalidUrlCount d"
  using assms by (simp_all add: sameEntries_def sameDecisions_def)

lemma attemptStep_same:
  assumes "sameEntries S c d"
  shows "sameAttempt S (attemptStep P B sec u a c) (attemptStep P B sec u a d)"
proof -
  note eq = sameEntries_fields [OF assms]
  obtain r w where ex: "extractPost B (world d) sec u = (r, w)"
    by (cases "extractPost B (world d) sec u") auto
  show ?thesis
  proof (cases r)
    case (Inr raw)
    with ex eq assms show ?thesis
      by (simp add: attemptStep_def sameEntries_def sameDecisions_def)
  next
    case (Inl err)
    with ex eq assms show ?thesis
      by (simp add: attemptStep_def giveUpOrRetry_def Let_def sameEntries_def sameDecisions_def)
  qed
qed

lemma attemptLoop_same:
  assumes "sameEntries S c d"
  shows "fst (attemptLoop P B sec u a c) = fst (attemptLoop P B sec u a d)
         \<and> sameEntries S (snd (attemptLoop P B sec u a c)) (snd (attemptLoop P B sec u a d))"
  using assms
proof (induction P B sec u a c arbitrary: d rule: attemptLoop.induct)
  case (1 P B sec u a c)
  note step = attemptStep_same [OF "1.prems", of P B sec u a]
  show ?case
  proof (cases "a \<le> maxAttempts")
    case False
    with "1.prems" show ?thesis
      by (simp add: attemptLoop.simps [of P B sec u a])
  next
    case True
    show ?thesis
    proof (cases "attemptStep P B sec u a c")
      case (Retry c')
      with step obtain d' where d': "attemptStep P B sec u a d = Retry d'" "sameEntries S c' d'"
        by (cases "attemptStep P B sec u a d") auto
      from "1.IH" [OF True Retry d'(2)] True Retry d'(1) show ?thesis
        by (simp add: attemptLoop.simps [of P B sec u a])
    next
      case (Done x c')
      with step obtain d' where "attemptStep P B sec u a d = Done x d'" "sameEntries S c' d'"
        by (cases "attemptStep P B sec u a d") auto
      with True Done show ?thesis
        by (simp add: attemptLoop.simps [of P B sec u a])
    qed
  qed
qed

lemma savePost_same:
  assumes "sameEntries S c d"
  shows "samePost S (savePost P B sec x c) (savePost P B sec x d)"
  using assms sameEntries_fields [OF assms]
  by (simp add: savePost_def Let_def sameEntries_def sameDecisions_def split: prod.splits option.splits)

lemma processPost_same:
  assumes "sameEntries S c d"
  shows "samePost S (processPost P B sec s c) (processPost P B sec s d)"
proof -
  note eq = sameEntries_fields [OF assms]
  define u where "u = normalizePostUrl P (ps_url s) (baseUrl sec)"
  have ins: "sameEntries S (c\<lparr>seenUrls := insert u (seenUrls c)\<rparr>)
                (d\<lparr>seenUrls := insert u (seenUrls d)\<rparr>)"
    using assms by (simp add: sameEntries_def sameDecisions_def)
  obtain x c1 where lc: "attemptLoop P B sec u 1 (c\<lparr>seenUrls := insert u (seenUrls c)\<rparr>) = (x, c1)"
    by (cases "attemptLoop P B sec u 1 (c\<lparr>seenUrls := insert u (seenUrls c)\<rparr>)") auto
  obtain y d1 where ld: "attemptLoop P B sec u 1 (d\<lparr>seenUrls := insert u (seenUrls d)\<rparr>) = (y, d1)"
    by (cases "attemptLoop P B sec u 1 (d\<lparr>seenUrls := insert u (seenUrls d)\<rparr>)") auto
  from attemptLoop_same [OF ins, of P B sec u 1] lc ld have xy: "x = y" and s1: "sameEntries S c1 d1"
    by simp_all
  note eq1 = sameEntries_fields [OF s1]
  have failed: "sameEntries S (onReport (countFailed (sec_slug sec)) c1)
                  (onReport (countFailed (sec_slug sec)) d1)"
    using s1 by (simp add: sameEntries_def sameDecisions_def)
  have inv: "sameEntries S (c\<lparr>invalidUrlCount := invalidUrlCount c + 1\<rparr>)
                  (d\<lparr>invalidUrlCount := invalidUrlCount d + 1\<rparr>)"
    using assms by (simp add: sameEntries_def sameDecisions_def)
  show ?thesis
    using assms eq lc ld xy s1 eq1(5) failed inv savePost_same [OF s1, of P B sec]
    unfolding processPost_def Let_def u_def [symmetric]
    by (simp split: option.splits)
qed

lemma postsLoop_same:
  assumes "sameEntries S c d"
  shows "fst (postsLoop P B sec xs c) = fst (postsLoop P B sec xs d)
         \<and> sameEntries S (snd (postsLoop P B sec xs c)) (snd (postsLoop P B sec xs d))"
  using assms
proof (induction xs arbitrary: c d)
  case Nil
  then show ?case by simp
next
  case (Cons s rest)
  note step = processPost_same [OF Cons.prems, of P B sec s]
  show ?case
  proof (cases "processPost P B sec s c")
    case (ContinuePosts c')
    with step obtain d' where d': "processPost P B sec s d = ContinuePosts d'" "sameEntries S c' d'"
      by (cases "processPost P B sec s d") auto
    from Cons.IH [OF d'(2)] ContinuePosts d'(1) show ?thesis
      by simp
  next
    case (BreakPosts c')
    with step obtain d' where "processPost P B sec s d = BreakPosts d'" "sameEntries S c' d'"
      by (cases "processPost P B sec s d") auto
    with BreakPosts show ?thesis
      by simp
  next
    case (ThrowPosts e c')
    with step obtain d' where "processPost P B sec s d = ThrowPosts e d'" "sameEntries S c' d'"
      by (cases "processPost P B sec s d") auto
    with ThrowPosts show ?thesis
      by simp
  qed
qed


lemma enterPage_same:
  assumes "sameEntries S c d" and "sec_slug sec \<in> S"
  shows "fst (enterPage B sec n cur c) = fst (enterPage B sec n cur d)
         \<and> sameEntries S (snd (enterPage B sec n cur c)) (snd (enterPage B sec n cur d))"
proof -
  note eq = sameEntries_fields [OF assms(1)]
  from assms have here: "(sections (runReport c) (sec_slug sec) = None)
                           = (sections (runReport d) (sec_slug sec) = None)"
    by (simp add: sameEntries_def)
  obtain e w where g: "goto B (world d) cur = (e, w)"
    by (cases "goto B (world d) cur") auto
  show ?thesis
  proof (cases "sections (runReport c) (sec_slug sec)")
    case None
    with here have "sections (runReport d) (sec_slug sec) = None"
      by simp
    with None g eq assms(1) show ?thesis
      by (cases e) (simp_all add: enterPage_def Let_def sameEntries_def sameDecisions_def)
  next
    case (Some st)
    with here obtain st' where "sections (runReport d) (sec_slug sec) = Some st'"
      by auto
    with Some g eq assms(1) show ?thesis
      by (cases e) (simp_all add: enterPage_def Let_def sameEntries_def sameDecisions_def)
  qed
qed

lemma extractCategoryPage_same:
  assumes "sameEntries S c d"
  shows "fst (extractCategoryPage B sec cur c) = fst (extractCategoryPage B sec cur d)
         \<and> sameEntries S (snd (extractCategoryPage B sec cur c))
              (snd (extractCategoryPage B sec cur d))"
  using assms sameEntries_fields [OF assms]
  by (simp add: extractCategoryPage_def sameEntries_def sameDecisions_def
      split: prod.splits sum.splits)

lemma notePosts_same:
  assumes "sameEntries S c d"
  shows "sameEntries S ((notePosts B sec cur res c)\<lparr>newThisPage := 0, invalidUrlCount := 0\<rparr>)
           ((notePosts B sec cur res d)\<lparr>newThisPage := 0, invalidUrlCount := 0\<rparr>)"
  using assms sameEntries_fields [OF assms]
  by (simp add: notePosts_def sameEntries_def sameDecisions_def)

lemma catchPageError_same:
  assumes "sameEntries S c d"
  shows "sameEntries S (catchPageError sec err c) (catchPageError sec err d)"
  using assms by (simp add: catchPageError_def sameEntries_def sameDecisions_def)

lemma pageIteration_same:
  assumes "sameEntries S c d" and "sec_slug sec \<in> S"
  shows "samePage S (pageIteration P B sec n cur c) (pageIteration P B sec n cur d)"
proof -
  obtain e c1 where ec: "enterPage B sec n cur c = (e, c1)"
    by (cases "enterPage B sec n cur c") auto
  obtain e' d1 where ed: "enterPage B sec n cur d = (e', d1)"
    by (cases "enterPage B sec n cur d") auto
  from enterPage_same [OF assms, of B n cur] ec ed have e: "e' = e" and s1: "sameEntries S c1 d1"
    by simp_all
  show ?thesis
  proof (cases e)
    case (Some err)
    with ec ed e s1 show ?thesis
      by (simp add: pageIteration_def)
  next
    case None
    obtain r c2 where xc: "extractCategoryPage B sec cur c1 = (r, c2)"
      by (cases "extractCategoryPage B sec cur c1") auto
    obtain r' d2 where xd: "extractCategoryPage B sec cur d1 = (r', d2)"
      by (cases "extractCategoryPage B sec cur d1") auto
    from extractCategoryPage_same [OF s1, of B sec cur] xc xd
    have r: "r' = r" and s2: "sameEntries S c2 d2"
      by simp_all
    show ?thesis
    proof (cases r)
      case (Inl err)
      with None ec ed e xc xd r catchPageError_same [OF s2, of sec err] show ?thesis
        by (simp add: pageIteration_def)
    next
      case (Inr res)
      define c3 where "c3 = (notePosts B sec cur res c2)\<lparr>newThisPage := 0, invalidUrlCount := 0\<rparr>"
      define d3 where "d3 = (notePosts B sec cur res d2)\<lparr>newThisPage := 0, invalidUrlCount := 0\<rparr>"
      have s3: "sameEntries S c3 d3"
        unfolding c3_def d3_def by (rule notePosts_same [OF s2])
      obtain t c4 where pc: "postsLoop P B sec (posts res) c3 = (t, c4)"
        by (cases "postsLoop P B sec (posts res) c3") auto
      obtain t' d4 where pd: "postsLoop P B sec (posts res) d3 = (t', d4)"
        by (cases "postsLoop P B sec (posts res) d3") auto
      from postsLoop_same [OF s3, of P B sec "posts res"] pc pd
      have t: "t' = t" and s4: "sameEntries S c4 d4"
        by simp_all
      have s5: "sameEntries S (c4\<lparr>totalNew := totalNew c4 + newThisPage c4\<rparr>)
                  (d4\<lparr>totalNew := totalNew d4 + newThisPage d4\<rparr>)"
        using s4 by (simp add: sameEntries_def sameDecisions_def)
      show ?thesis
      proof (cases t)
        case None' : None
        with None Inr ec ed e xc xd r pc pd t s5 show ?thesis
          by (simp add: pageIteration_def c3_def d3_def)
      next
        case (Some err)
        with None Inr ec ed e xc xd r pc pd t catchPageError_same [OF s4, of sec err]
        show ?thesis
          by (simp add: pageIteration_def c3_def d3_def)
      qed
    qed
  qed
qed

lemma pageLoop_same:
  assumes "sameEntries S c d" and "sec_slug sec \<in> S"
  shows "fst (pageLoop P B sec m n cur c) = fst (pageLoop P B sec m n cur d)
         \<and> sameEntries S (snd (pageLoop P B sec m n cur c)) (snd (pageLoop P B sec m n cur d))"
  using assms
proof (induction P B sec m n cur c arbitrary: d rule: pageLoop.induct)
  case (1 P B sec m n cur c)
  note eq = sameEntries_fields [OF "1.prems"(1)]
  show ?case
  proof (cases cur)
    case None
    with "1.prems" show ?thesis
      by (simp add: pageLoop.simps [of P B sec m n None])
  next
    case (Some u)
    show ?thesis
    proof (cases "u \<noteq> [] \<and> n \<le> m \<and> sessionHealthy c")
      case False
      then have "pageLoop P B sec m n (Some u) c = (None, c)"
        by (auto simp: pageLoop.simps [of P B sec m n "Some u" c])
      moreover from False eq have "pageLoop P B sec m n (Some u) d = (None, d)"
        by (auto simp: pageLoop.simps [of P B sec m n "Some u" d])
      ultimately show ?thesis
        using Some "1.prems" by simp
    next
      case True
      then have go: "u \<noteq> [] \<and> n \<le> m \<and> sessionHealthy d"
        using eq by simp
      note step = pageIteration_same [OF "1.prems", of P B n u]
      show ?thesis
      proof (cases "pageIteration P B sec n u c")
        case (ContinuePages nxt c')
        with step obtain d' where d': "pageIteration P B sec n u d = ContinuePages nxt d'"
            "sameEntries S c' d'"
          by (cases "pageIteration P B sec n u d") auto
        from "1.IH" [OF Some True ContinuePages d'(2) "1.prems"(2)] Some True go ContinuePages d'(1)
        show ?thesis
          by (simp add: pageLoop.simps [of P B sec m n "Some u"])
      next
        case (BreakPages c')
        with step obtain d' where "pageIteration P B sec n u d = BreakPages d'"
            "sameEntries S c' d'"
          by (cases "pageIteration P B sec n u d") auto
        with Some True go BreakPages show ?thesis
          by (simp add: pageLoop.simps [of P B sec m n "Some u"])
      next
        case (ThrowPages e c')
        with step obtain d' where "pageIteration P B sec n u d = ThrowPages e d'"
            "sameEntries S c' d'"
          by (cases "pageIteration P B sec n u d") auto
        with Some True go ThrowPages show ?thesis
          by (simp add: pageLoop.simps [of P B sec m n "Some u"])
      qed
    qed
  qed
qed

lemma scrapeSection_same:
  assumes "sameEntries S c d" and "sec_slug sec \<in> S"
  shows "fst (scrapeSection P B sec m c) = fst (scrapeSection P B sec m d)
         \<and> sameEntries S (snd (scrapeSection P B sec m c)) (snd (scrapeSection P B sec m d))"
proof -
  note eq = sameEntries_fields [OF assms(1)]
  obtain e w where np: "newPage B (world d) (baseUrl sec) = (e, w)"
    by (cases "newPage B (world d) (baseUrl sec)") auto
  define c1 where "c1 = emit [NewPage (baseUrl sec), Wait 3000]
      (c\<lparr>totalNew := 0, sessionHealthy := True, consecutiveSessionErrors := 0, world := w\<rparr>)"
  define d1 where "d1 = emit [NewPage (baseUrl sec), Wait 3000]
      (d\<lparr>totalNew := 0, sessionHealthy := True, consecutiveSessionErrors := 0, world := w\<rparr>)"
  have s1: "sameEntries S c1 d1"
    using assms(1) by (simp add: c1_def d1_def sameEntries_def sameDecisions_def)
  note loop = pageLoop_same [OF s1 assms(2), of P B m 1 "Some (baseUrl sec)"]
  show ?thesis
  proof (cases e)
    case (Some err)
    with np eq assms(1) show ?thesis
      by (simp add: scrapeSection_def sameEntries_def sameDecisions_def)
  next
    case None
    obtain t c2 where pc: "pageLoop P B sec m 1 (Some (baseUrl sec)) c1 = (t, c2)"
      by (cases "pageLoop P B sec m 1 (Some (baseUrl sec)) c1") auto
    obtain t' d2 where pd: "pageLoop P B sec m 1 (Some (baseUrl sec)) d1 = (t', d2)"
      by (cases "pageLoop P B sec m 1 (Some (baseUrl sec)) d1") auto
    from loop pc pd have t: "t' = t" and s2: "sameEntries S c2 d2"
      by simp_all
    note eq2 = sameEntries_fields [OF s2]
    from None np eq pc pd t s2 eq2 show ?thesis
      by (cases t) (simp_all add: scrapeSection_def c1_def [symmetric] d1_def [symmetric])
  qed
qed


lemma runSection_same:
  assumes "sameEntries S c d" and "sec_slug sec \<in> S"
  shows "fst (runSection P B m sec c) = fst (runSection P B m sec d)
         \<and> sameEntries S (snd (runSection P B m sec c)) (snd (runSection P B m sec d))"
proof -
  note eq = sameEntries_fields [OF assms(1)]
  define f where "f = onTotals (\<lambda>t. t\<lparr>sectionsVisited := sectionsVisited t + 1\<rparr>)"
  obtain e w where si: "stagehandInit B (world d) sec = (e, w)"
    by (cases "stagehandInit B (world d) sec") auto
  have s1: "sameEntries S ((onReport f c)\<lparr>world := w\<rparr>) ((onReport f d)\<lparr>world := w\<rparr>)"
    using assms(1) by (simp add: f_def sameEntries_def sameDecisions_def)
  have settle: "sameEntries S
        ((onReport (ifPending (sec_slug sec) st) x)\<lparr>world := stagehandClose B (world x) sec\<rparr>)
        ((onReport (ifPending (sec_slug sec) st) y)\<lparr>world := stagehandClose B (world y) sec\<rparr>)"
    if "sameEntries S x y" for x y :: "'a crawl" and st
    using that by (simp add: sameEntries_def sameDecisions_def ifPending_def)
  show ?thesis
  proof (cases e)
    case (Some err)
    with si eq settle [OF s1] show ?thesis
      by (simp add: runSection_def Let_def f_def)
  next
    case None
    obtain r c2 where sc: "scrapeSection P B sec m ((onReport f c)\<lparr>world := w\<rparr>) = (r, c2)"
      by (cases "scrapeSection P B sec m ((onReport f c)\<lparr>world := w\<rparr>)") auto
    obtain r' d2 where sd: "scrapeSection P B sec m ((onReport f d)\<lparr>world := w\<rparr>) = (r', d2)"
      by (cases "scrapeSection P B sec m ((onReport f d)\<lparr>world := w\<rparr>)") auto
    from scrapeSection_same [OF s1 assms(2), of P B m] sc sd
    have r: "r' = r" and s2: "sameEntries S c2 d2"
      by simp_all
    from None si eq sc sd r settle [OF s2] show ?thesis
      by (cases r) (simp_all add: runSection_def Let_def f_def)
  qed
qed

lemma runSections_same:
  assumes "sameEntries S c d" and "sec_slug ` set secs \<subseteq> S"
  shows "fst (runSections P B m secs t c) = fst (runSections P B m secs t d)
         \<and> sameEntries S (snd (runSections P B m secs t c)) (snd (runSections P B m secs t d))"
  using assms
proof (induction secs arbitrary: t c d)
  case Nil
  then show ?case by simp
next
  case (Cons sec rest)
  obtain n c1 where rc: "runSection P B m sec c = (n, c1)"
    by (cases "runSection P B m sec c") auto
  obtain n' d1 where rd: "runSection P B m sec d = (n', d1)"
    by (cases "runSection P B m sec d") auto
  from Cons.prems have "sec_slug sec \<in> S" "sec_slug ` set rest \<subseteq> S"
    by simp_all
  with runSection_same [OF Cons.prems(1), of sec P B m] rc rd Cons.IH [of c1 d1 "t + n"]
  show ?case
    by simp
qed

text \<open>
  C9.  Two crawls of a section on the same backend, from states that differ at most in the
  Run Report, the two reports having a stats entry for the section or both lacking it,
  return the same result and end in states that differ at most in the Run
  Report: the same events (pages entered, listings and details extracted, waits, records
  and files handed to the sink), the same Dedup Set, the same backend state.  The same
  holds for the loop of \<open>main\<close> over sections whose entries the two reports both have or
  both lack.  The counters, the statuses and the error histogram of the report are free.
\<close>

theorem report_is_write_only:
  assumes "sameDecisions c d"
    and "(sections (runReport c) (sec_slug sec) = None)
           = (sections (runReport d) (sec_slug sec) = None)"
  shows "fst (scrapeSection P B sec m c) = fst (scrapeSection P B sec m d)
       \<and> sameDecisions (snd (scrapeSection P B sec m c)) (snd (scrapeSection P B sec m d))
       \<and> events (snd (scrapeSection P B sec m c)) = events (snd (scrapeSection P B sec m d))
       \<and> seenUrls (snd (scrapeSection P B sec m c)) = seenUrls (snd (scrapeSection P B sec m d))
       \<and> world (snd (scrapeSection P B sec m c)) = world (snd (scrapeSection P B sec m d))
       \<and> ((\<forall>x\<in>set secs. (sections (runReport c) (sec_slug x) = None)
                            = (sections (runReport d) (sec_slug x) = None))
            \<longrightarrow> fst (runSections P B m secs t c) = fst (runSections P B m secs t d)
                \<and> sameDecisions (snd (runSections P B m secs t c))
                     (snd (runSections P B m secs t d)))"
proof -
  from assms have "sameEntries {sec_slug sec} c d"
    by (simp add: sameEntries_def)
  from scrapeSection_same [OF this, of sec P B m]
  have one: "fst (scrapeSection P B sec m c) = fst (scrapeSection P B sec m d)"
    "sameEntries {sec_slug sec} (snd (scrapeSection P B sec m c)) (snd (scrapeSection P B sec m d))"
    by simp_all
  have run: "fst (runSections P B m secs t c) = fst (runSections P B m secs t d)
                \<and> sameDecisions (snd (runSections P B m secs t c))
                     (snd (runSections P B m secs t d))"
    if "\<forall>x\<in>set secs. (sections (runReport c) (sec_slug x) = None)
                            = (sections (runReport d) (sec_slug x) = None)"
  proof -
    from that assms(1) have "sameEntries (sec_slug ` set secs) c d"
      by (simp add: sameEntries_def)
    from runSections_same [OF this, of secs P B m t] show ?thesis
      by (simp add: sameEntries_def)
  qed
  from one(2) have "sameDecisions (snd (scrapeSection P B sec m c)) (snd (scrapeSection P B sec m d))"
    by (simp add: sameEntries_def)
  with one(1) sameEntries_fields(1-3) [OF one(2)] run show ?thesis
    by blast
qed

lemma busyReport_entry:
  "sections busyReport (sec_slug drDiet)
     = Some \<lparr>pagesVisited = 0, postsDiscovered = 7, postsSaved = 0, postsFailed = 1\<rparr>"
  "sectionStatus busyReport (js ''dr-quiet'') = Some SessionFailed"
  "totalPostsFailed (totals busyReport) = 1"
proof -
  have slug: "sec_slug drDiet = js ''dr-diet''"
    by (simp add: drDiet_def)
  show "sections busyReport (sec_slug drDiet)
     = Some \<lparr>pagesVisited = 0, postsDiscovered = 7, postsSaved = 0, postsFailed = 1\<rparr>"
    using example_report(1)
    by (simp add: busyReport_def report_sections_at emptyStats_def slug)
  show "sectionStatus busyReport (js ''dr-quiet'') = Some SessionFailed"
    by (simp add: busyReport_def)
  show "totalPostsFailed (totals busyReport) = 1"
    using example_report(3) by (simp add: busyReport_def)
qed

theorem report_is_write_only_witness:
  "sameDecisions
     ((startOfRun [Inr (detailOf postB)])\<lparr>seenUrls := {postA}\<rparr> :: (js_error + json) list crawl)
     ((startOfRun [Inr (detailOf postB)])\<lparr>seenUrls := {postA}, runReport := busyReport\<rparr>)
   \<and> sections (initialReport SECTIONS) (sec_slug drDiet) = Some emptyStats
   \<and> sections busyReport (sec_slug drDiet)
       = Some \<lparr>pagesVisited = 0, postsDiscovered = 7, postsSaved = 0, postsFailed = 1\<rparr>
   \<and> fst (scrapeSection blogPlatform (scripted [] twoPages) drDiet 2
            ((startOfRun [Inr (detailOf postB)])\<lparr>seenUrls := {postA}, runReport := busyReport\<rparr>))
       = Inr 1
   \<and> events (snd (scrapeSection blogPlatform (scripted [] twoPages) drDiet 2
            ((startOfRun [Inr (detailOf postB)])\<lparr>seenUrls := {postA}, runReport := busyReport\<rparr>)))
       = events (snd twoPageCrawl)
   \<and> seenUrls (snd (scrapeSection blogPlatform (scripted [] twoPages) drDiet 2
            ((startOfRun [Inr (detailOf postB)])\<lparr>seenUrls := {postA}, runReport := busyReport\<rparr>)))
       = {postB, postA}
   \<and> fst (runSections blogPlatform (scripted [] twoPages) 2 [drDiet] 0
            ((startOfRun [Inr (detailOf postB)])\<lparr>seenUrls := {postA}, runReport := busyReport\<rparr>))
       = fst (runSections blogPlatform (scripted [] twoPages) 2 [drDiet] 0
            ((startOfRun [Inr (detailOf postB)])\<lparr>seenUrls := {postA}\<rparr>))"
proof -
  let ?c = "(startOfRun [Inr (detailOf postB)])\<lparr>seenUrls := {postA}\<rparr>
              :: (js_error + json) list crawl"
  let ?d = "(startOfRun [Inr (detailOf postB)])\<lparr>seenUrls := {postA}, runReport := busyReport\<rparr>
              :: (js_error + json) list crawl"
  have same: "sameDecisions ?c ?d"
    by (simp add: sameDecisions_def startOfRun_def)
  have entries: "sections (runReport ?c) (sec_slug drDiet) = Some emptyStats"
    "sections (runReport ?d) (sec_slug drDiet)
       = Some \<lparr>pagesVisited = 0, postsDiscovered = 7, postsSaved = 0, postsFailed = 1\<rparr>"
    by (simp_all add: startOfRun_def example_report busyReport_entry)
  then have here: "(sections (runReport ?c) (sec_slug drDiet) = None)
                     = (sections (runReport ?d) (sec_slug drDiet) = None)"
    by simp
  then have every: "\<forall>x\<in>set [drDiet]. (sections (runReport ?c) (sec_slug x) = None)
                            = (sections (runReport ?d) (sec_slug x) = None)"
    by simp
  have crawl: "scrapeSection blogPlatform (scripted [] twoPages) drDiet 2 ?c = twoPageCrawl"
    by (simp add: twoPageCrawl_def)
  note inst = report_is_write_only [where c = ?c and d = ?d and sec = drDiet and P = blogPlatform
      and B = "scripted [] twoPages" and m = 2 and secs = "[drDiet]" and t = 0, OF same here]
  from inst every have
    "fst (scrapeSection blogPlatform (scripted [] twoPages) drDiet 2 ?d) = fst twoPageCrawl"
    "events (snd (scrapeSection blogPlatform (scripted [] twoPages) drDiet 2 ?d))
       = events (snd twoPageCrawl)"
    "seenUrls (snd (scrapeSection blogPlatform (scripted [] twoPages) drDiet 2 ?d))
       = seenUrls (snd twoPageCrawl)"
    "fst (runSections blogPlatform (scripted [] twoPages) 2 [drDiet] 0 ?d)
       = fst (runSections blogPlatform (scripted [] twoPages) 2 [drDiet] 0 ?c)"
    unfolding crawl by simp_all
  with same show ?thesis
    by (simp add: twoPageCrawl_facts example_report busyReport_entry)
qed

end
